theory Spec2Isabelle
  imports Complex_Main
begin

section \<open>The catalog store (db.py)\<close>

text \<open>
  The catalog is one SQLite file with the tables \<^verbatim>\<open>documents\<close> and
  \<^verbatim>\<open>text_extractions\<close>. A table is the list of its rows in insertion order, a
  nullable column is an \<open>option\<close> (\<open>None\<close> is SQL NULL, Python \<open>None\<close>), a TEXT column a
  \<open>string\<close>. \<^verbatim>\<open>CURRENT_TIMESTAMP\<close> is the argument \<open>now\<close> of every operation that
  writes one. The column \<^verbatim>\<open>id\<close> is the field \<open>rowid\<close> (\<open>id\<close> is HOL's identity), and
  the columns \<^verbatim>\<open>method\<close>, \<^verbatim>\<open>error\<close> and \<^verbatim>\<open>created_at\<close> of \<^verbatim>\<open>text_extractions\<close> are the
  fields \<open>ext_method\<close>, \<open>ext_error\<close> and \<open>ext_created_at\<close>.
  The \<^verbatim>\<open>metadata\<close> column holds \<^verbatim>\<open>json.dumps\<close> of a dictionary; the model keeps the
  dictionary that text serialises, as an association list.
\<close>

type_synonym timestamp = nat

record document =
  rowid :: nat
  url :: string
  source :: string
  source_id :: string
  filename :: string
  title :: string
  metadata :: "(string \<times> string) list"
  local_path :: "string option"
  sha256 :: "string option"
  file_size :: "int option"
  download_status :: string
  error :: "string option"
  created_at :: timestamp
  updated_at :: timestamp

record extraction =
  ext_id :: nat
  document_id :: nat
  output_path :: string
  ext_method :: string
  page_count :: int
  char_count :: int
  ocr_pages :: int
  status :: string
  ext_error :: "string option"
  ext_created_at :: timestamp

text \<open>
  Both tables declare \<^verbatim>\<open>INTEGER PRIMARY KEY AUTOINCREMENT\<close>: SQLite keeps, per table,
  the largest rowid ever used (table \<^verbatim>\<open>sqlite_sequence\<close>) and gives a new row the next
  number. \<open>last_insert_rowid\<close> is the connection's register of that name: the rowid of
  the most recent successful INSERT on the connection, in whatever table, and 0 on a
  connection that has inserted nothing. An INSERT that is ignored leaves it as it was.
  \<^verbatim>\<open>Database\<close> holds one connection per thread and the program has one thread.
\<close>

record database =
  documents :: "document list"
  text_extractions :: "extraction list"
  documents_seq :: nat
  extractions_seq :: nat
  last_insert_rowid :: nat

definition empty_database :: database where
  "empty_database =
     \<lparr>documents = [], text_extractions = [], documents_seq = 0, extractions_seq = 0,
      last_insert_rowid = 0\<rparr>"

definition url_exists :: "database \<Rightarrow> string \<Rightarrow> bool" where
  "url_exists db u = (find (\<lambda>r. url r = u) (documents db) \<noteq> None)"

text \<open>
  \<^verbatim>\<open>SELECT local_path ... WHERE sha256 = ? AND download_status = 'downloaded' LIMIT 1\<close>:
  a NULL \<^verbatim>\<open>sha256\<close> equals nothing, and of several matching rows the first is taken.
  The result is \<^verbatim>\<open>row["local_path"]\<close>, which is itself \<open>None\<close> when that column is NULL.
\<close>

definition sha256_exists :: "database \<Rightarrow> string \<Rightarrow> string option" where
  "sha256_exists db h =
     (case find (\<lambda>r. sha256 r = Some h \<and> download_status r = ''downloaded'') (documents db) of
        None \<Rightarrow> None
      | Some r \<Rightarrow> local_path r)"

definition new_document ::
  "nat \<Rightarrow> timestamp \<Rightarrow> string \<Rightarrow> string \<Rightarrow> string \<Rightarrow> string \<Rightarrow> string \<Rightarrow>
   (string \<times> string) list \<Rightarrow> document" where
  "new_document i now u src sid fname ttl meta =
     \<lparr>rowid = i, url = u, source = src, source_id = sid, filename = fname, title = ttl,
      metadata = meta, local_path = None, sha256 = None, file_size = None,
      download_status = ''pending'', error = None, created_at = now, updated_at = now\<rparr>"

text \<open>
  \<^verbatim>\<open>insert_document\<close>. \<^verbatim>\<open>INSERT OR IGNORE\<close> writes no row when the url is in the table
  (\<^verbatim>\<open>UNIQUE(url)\<close>; SQLite has by then drawn a number from the table's sequence, which
  stays used), and appends a row otherwise. \<^verbatim>\<open>cur.lastrowid\<close> is then read from
  the connection's \<open>last_insert_rowid\<close>: after an insertion it is the new row's id, which is
  not 0, and the function returns it; after an ignored statement it is whatever the
  connection inserted last. Only when that is 0 (falsy) does the function go on to
  \<^verbatim>\<open>SELECT id FROM documents WHERE url = ?\<close>, which finds the row that made the
  statement be ignored.
\<close>

definition insert_document ::
  "database \<Rightarrow> timestamp \<Rightarrow> string \<Rightarrow> string \<Rightarrow> string \<Rightarrow> string \<Rightarrow> string \<Rightarrow>
   (string \<times> string) list option \<Rightarrow> database \<times> nat" where
  "insert_document db now u src sid fname ttl meta =
     (let meta_json = (case meta of None \<Rightarrow> [] | Some m \<Rightarrow> m) in
      case find (\<lambda>r. url r = u) (documents db) of
        None \<Rightarrow>
          (let i = Suc (documents_seq db) in
           (db\<lparr>documents := documents db @ [new_document i now u src sid fname ttl meta_json],
               documents_seq := i, last_insert_rowid := i\<rparr>, i))
      | Some r \<Rightarrow>
          (let db' = db\<lparr>documents_seq := Suc (documents_seq db)\<rparr>;
               lastrowid = last_insert_rowid db in
           if lastrowid \<noteq> 0 then (db', lastrowid) else (db', rowid r)))"

text \<open>
  \<^verbatim>\<open>update_download\<close>: one UPDATE of the rows whose id is \<open>doc_id\<close>. The five optional
  arguments default to \<open>None\<close> in Python and are written as they are.
\<close>

definition update_download ::
  "database \<Rightarrow> timestamp \<Rightarrow> nat \<Rightarrow> string \<Rightarrow> string option \<Rightarrow> string option \<Rightarrow>
   int option \<Rightarrow> string option \<Rightarrow> database" where
  "update_download db now doc_id st lp sh fs er =
     db\<lparr>documents :=
          map (\<lambda>r. if rowid r = doc_id
                    then r\<lparr>download_status := st, local_path := lp, sha256 := sh,
                           file_size := fs, error := er, updated_at := now\<rparr>
                    else r)
              (documents db)\<rparr>"

definition insert_extraction ::
  "database \<Rightarrow> timestamp \<Rightarrow> nat \<Rightarrow> string \<Rightarrow> string \<Rightarrow> int \<Rightarrow> int \<Rightarrow> int \<Rightarrow> string \<Rightarrow>
   string option \<Rightarrow> database" where
  "insert_extraction db now doc_id out m pc cc op st er =
     (let i = Suc (extractions_seq db) in
      db\<lparr>text_extractions := text_extractions db @
            [\<lparr>ext_id = i, document_id = doc_id, output_path = out, ext_method = m,
              page_count = pc, char_count = cc, ocr_pages = op, status = st,
              ext_error = er, ext_created_at = now\<rparr>],
         extractions_seq := i, last_insert_rowid := i\<rparr>)"


section \<open>Exceptions, strings and paths\<close>

text \<open>
  An exception is a value: its class and its message (\<^verbatim>\<open>str(e)\<close>). \<open>PdfError\<close> stands
  for whatever the PDF library raises.
\<close>

datatype exn =
    HTTPStatusError string
  | TransportError string
  | OSError string
  | ValueError string
  | TypeError string
  | PdfError string

fun str_exn :: "exn \<Rightarrow> string" where
  "str_exn (HTTPStatusError m) = m"
| "str_exn (TransportError m) = m"
| "str_exn (OSError m) = m"
| "str_exn (ValueError m) = m"
| "str_exn (TypeError m) = m"
| "str_exn (PdfError m) = m"

definition digit_char :: "nat \<Rightarrow> char" where
  "digit_char d = char_of (48 + d)"

fun str_nat :: "nat \<Rightarrow> string" where
  "str_nat n = (if n < 10 then [digit_char n] else str_nat (n div 10) @ [digit_char (n mod 10)])"

declare str_nat.simps [simp del]

definition str_int :: "int \<Rightarrow> string" where
  "str_int i = (if i < 0 then CHR ''-'' # str_nat (nat (- i)) else str_nat (nat i))"

text \<open>\<^verbatim>\<open>sep.join(xs)\<close>, \<^verbatim>\<open>s.endswith(suffix)\<close>, \<^verbatim>\<open>needle in s\<close> and \<^verbatim>\<open>s.lower()\<close>
  (on ASCII letters).\<close>

fun join :: "string \<Rightarrow> string list \<Rightarrow> string" where
  "join sep [] = []"
| "join sep [x] = x"
| "join sep (x # y # ys) = x @ sep @ join sep (y # ys)"

definition endswith :: "string \<Rightarrow> string \<Rightarrow> bool" where
  "endswith s suffix = (length suffix \<le> length s \<and> drop (length s - length suffix) s = suffix)"

fun contains :: "string \<Rightarrow> string \<Rightarrow> bool" where
  "contains [] needle = (needle = [])"
| "contains (c # s) needle = (take (length needle) (c # s) = needle \<or> contains s needle)"

definition lower_char :: "char \<Rightarrow> char" where
  "lower_char c = (let n = (of_char c :: nat) in if 65 \<le> n \<and> n \<le> 90 then char_of (n + 32) else c)"

definition lower :: "string \<Rightarrow> string" where
  "lower s = map lower_char s"

text \<open>\<^verbatim>\<open>os.path.join\<close>, \<^verbatim>\<open>os.path.basename\<close>, \<^verbatim>\<open>os.path.dirname\<close> and
  \<^verbatim>\<open>os.path.splitext\<close> of posixpath; \<open>rfind\<close> is \<^verbatim>\<open>str.rfind\<close> of one character.\<close>

definition path_join :: "string \<Rightarrow> string \<Rightarrow> string" where
  "path_join a b =
     (if b \<noteq> [] \<and> hd b = CHR ''/'' then b
      else if a = [] \<or> last a = CHR ''/'' then a @ b
      else a @ ''/'' @ b)"

definition basename :: "string \<Rightarrow> string" where
  "basename p = rev (takeWhile (\<lambda>c. c \<noteq> CHR ''/'') (rev p))"

definition rfind :: "string \<Rightarrow> char \<Rightarrow> int" where
  "rfind p c =
     (if c \<in> set p then int (length p) - 1 - int (length (takeWhile (\<lambda>x. x \<noteq> c) (rev p)))
      else - 1)"

definition dirname :: "string \<Rightarrow> string" where
  "dirname p =
     (let head = take (nat (rfind p (CHR ''/'') + 1)) p in
      if head \<noteq> [] \<and> \<not> list_all (\<lambda>c. c = CHR ''/'') head
      then rev (dropWhile (\<lambda>c. c = CHR ''/'') (rev head))
      else head)"

definition splitext :: "string \<Rightarrow> string \<times> string" where
  "splitext p =
     (let sepIndex = rfind p (CHR ''/''); dotIndex = rfind p (CHR ''.'') in
      if dotIndex > sepIndex \<and>
         list_ex (\<lambda>c. c \<noteq> CHR ''.'') (take (nat (dotIndex - (sepIndex + 1))) (drop (nat (sepIndex + 1)) p))
      then (take (nat dotIndex) p, drop (nat dotIndex) p)
      else (p, []))"

section \<open>The file system\<close>

text \<open>
  A file system is a map from paths to file contents: the bytes of a file written in
  binary mode, the text of one written in text mode. Opening the empty path and creating
  the directory with the empty name fail, as they do on every system (\<^verbatim>\<open>FileNotFoundError\<close>,
  an \<^verbatim>\<open>OSError\<close>); any other failure of the disk is given by the environment of the
  operation (see below).
\<close>

datatype file_content = Bytes "nat list" | Text string

type_synonym filesystem = "string \<rightharpoonup> file_content"

definition os_remove :: "filesystem \<Rightarrow> string \<Rightarrow> exn + filesystem" where
  "os_remove fs p =
     (case fs p of
        None \<Rightarrow> Inl (OSError ''No such file or directory'')
      | Some c \<Rightarrow> Inr (fs(p := None)))"

section \<open>The text extractor (extractor.py)\<close>

text \<open>
  A page of an opened PDF is what the two external tools give for it: \<open>page_text\<close> is
  \<^verbatim>\<open>page.get_text().strip()\<close>, and \<open>ocr_page\<close> is what \<^verbatim>\<open>_ocr_page\<close> (pdftoppm, then
  tesseract, stripped; the empty string when either fails) returns when it is called on
  the page. A text is a list of characters, one per code point of the Python string:
  the extractor only counts them.
\<close>

record page =
  page_text :: string
  ocr_page :: string

record extractor =
  min_chars :: int
  ocr_dpi :: int
  tesseract_lang :: string
  has_tesseract :: bool
  has_pdftoppm :: bool

definition MAX_OCR_PAGES :: int where
  "MAX_OCR_PAGES = 50"

definition page_marker :: "nat \<Rightarrow> string" where
  "page_marker page_num = ''--- Page '' @ str_nat (page_num + 1) @ '' ---'' @ [CHR 0x0A]"

text \<open>
  The body of the loop over the pages. The state is \<open>(all_text, ocr_pages, method)\<close> and,
  as a record of the effect, the list \<open>calls\<close> of page numbers \<^verbatim>\<open>_ocr_page\<close> was called
  with.
\<close>

type_synonym extract_state = "string list \<times> int \<times> string \<times> nat list"

definition extract_page :: "extractor \<Rightarrow> page \<Rightarrow> nat \<Rightarrow> extract_state \<Rightarrow> extract_state" where
  "extract_page ex p page_num s =
     (case s of (all_text, n_ocr, meth, calls) \<Rightarrow>
        (let text = page_text p;
             can_ocr = (has_tesseract ex \<and> has_pdftoppm ex) in
         if int (length text) < min_chars ex \<and> can_ocr \<and> n_ocr < MAX_OCR_PAGES then
           (let ocr_text = ocr_page p in
            if ocr_text \<noteq> [] \<and> length ocr_text > length text
            then (all_text @ [page_marker page_num @ ocr_text], n_ocr + 1, ''pymupdf+ocr'',
                  calls @ [page_num])
            else (all_text @ [page_marker page_num @ text], n_ocr, meth, calls @ [page_num]))
         else (all_text @ [page_marker page_num @ text], n_ocr, meth, calls)))"

fun extract_pages :: "extractor \<Rightarrow> page list \<Rightarrow> nat \<Rightarrow> extract_state \<Rightarrow> extract_state" where
  "extract_pages ex [] page_num s = s"
| "extract_pages ex (p # ps) page_num s =
     extract_pages ex ps (Suc page_num) (extract_page ex p page_num s)"

text \<open>
  \<^verbatim>\<open>TextExtractor.extract\<close> (\<open>extract\<close> alone is a keyword of Isabelle). It begins with
  \<^verbatim>\<open>os.makedirs(os.path.dirname(output_path))\<close>, which fails for an output path without a
  directory part. The environment of one call: whether creating the output directory
  fails for another reason,
  what \<^verbatim>\<open>fitz.open\<close> gives (the pages, or the exception it raises), and whether writing
  the text file fails. The result is the new file system, the pages given to OCR, and
  either the exception or \<open>(page_count, char_count, ocr_pages, method)\<close>.
\<close>

record pdf_env =
  makedirs_error :: "string option"
  opened :: "string + page list"
  write_error :: "string option"

definition extractor_extract ::
  "extractor \<Rightarrow> pdf_env \<Rightarrow> filesystem \<Rightarrow> string \<Rightarrow> string \<Rightarrow>
   filesystem \<times> nat list \<times> (exn + int \<times> int \<times> int \<times> string)" where
  "extractor_extract ex env fs pdf_path out_path =
     (if dirname out_path = [] then (fs, [], Inl (OSError ''No such file or directory''))
      else case makedirs_error env of
        Some m \<Rightarrow> (fs, [], Inl (OSError m))
      | None \<Rightarrow>
        (case opened env of
           Inl m \<Rightarrow> (fs, [], Inl (PdfError m))
         | Inr doc \<Rightarrow>
           (case extract_pages ex doc 0 ([], 0, ''pymupdf'', []) of
              (all_text, n_ocr, meth, calls) \<Rightarrow>
                (let full_text = join [CHR 0x0A, CHR 0x0A] all_text in
                 case write_error env of
                   Some m \<Rightarrow> (fs, calls, Inl (OSError m))
                 | None \<Rightarrow>
                     (fs(out_path \<mapsto> Text full_text), calls,
                      Inr (int (length doc), int (length full_text), n_ocr, meth))))))"


text \<open>
  \<^verbatim>\<open>BaseSource._extract_text\<close>: the output path is computed from the PDF's name, the
  extractor runs, and one row is appended to \<^verbatim>\<open>text_extractions\<close> either way.
\<close>

definition extract_text ::
  "string \<Rightarrow> string \<Rightarrow> extractor \<Rightarrow> pdf_env \<Rightarrow> timestamp \<Rightarrow> database \<Rightarrow> filesystem \<Rightarrow>
   nat \<Rightarrow> string \<Rightarrow> database \<times> filesystem \<times> nat list" where
  "extract_text data_dir src_name ex env now db fs doc_id pdf_path =
     (let ext_dir = path_join (path_join data_dir ''extracted_text'') src_name;
          base = fst (splitext (basename pdf_path));
          out_path = path_join ext_dir (base @ ''.txt'') in
      case extractor_extract ex env fs pdf_path out_path of
        (fs', calls, Inr (pc, cc, n_ocr, meth)) \<Rightarrow>
          (insert_extraction db now doc_id out_path meth pc cc n_ocr ''completed'' None, fs', calls)
      | (fs', calls, Inl e) \<Rightarrow>
          (insert_extraction db now doc_id [] ''error'' 0 0 0 ''failed'' (Some (str_exn e)),
           fs', calls))"

section \<open>The downloader (downloader.py)\<close>

text \<open>
  What the network and the disk do during one attempt is the attempt's environment: the
  connection fails (a transport error), or there is a response, with what
  \<^verbatim>\<open>raise_for_status\<close> does, the two headers the code reads, whether opening the
  destination fails, and the events of the body: a chunk arrives, reading fails
  (a transport error), or writing the chunk fails (an OS error). The
  \<^verbatim>\<open>content-length\<close> header is absent or empty (\<open>NoLength\<close>), text that \<^verbatim>\<open>int\<close>
  rejects (\<open>BadLength\<close>, with the message of the \<^verbatim>\<open>ValueError\<close>), or the text of a
  number together with the number \<^verbatim>\<open>int\<close> reads from it (\<open>Length\<close>).
\<close>

datatype chunk_event = Chunk "nat list" | ReadFails string | WriteFails string

datatype length_header = NoLength | BadLength string | Length string int

record response =
  status_error :: "string option"
  content_type :: string
  content_length :: length_header
  open_error :: "string option"
  body :: "chunk_event list"

datatype attempt = ConnectFails string | Response response

record download_config =
  max_retries :: int
  backoff_factor :: int
  default_rate_limit :: real
  max_file_size :: int

record source_config =
  enabled :: bool
  rate_limit :: real

text \<open>
  The loop of \<^verbatim>\<open>_stream_download\<close> over \<^verbatim>\<open>resp.iter_bytes\<close>: \<open>written\<close> is the content of
  the destination file so far, which is also what the running SHA-256 has been fed, and
  \<open>sz\<close> the byte counter \<^verbatim>\<open>size\<close>. The chunk that takes the counter over the cap has been
  written when the \<^verbatim>\<open>ValueError\<close> is raised.
\<close>

fun write_chunks :: "int \<Rightarrow> chunk_event list \<Rightarrow> nat list \<Rightarrow> int \<Rightarrow> nat list \<times> (exn + int)" where
  "write_chunks mx [] written sz = (written, Inr sz)"
| "write_chunks mx (Chunk c # es) written sz =
     (let written' = written @ c; sz' = sz + int (length c) in
      if sz' > mx
      then (written', Inl (ValueError
              (''File exceeded max size during download: '' @ str_int sz' @ '' bytes'')))
      else write_chunks mx es written' sz')"
| "write_chunks mx (ReadFails m # es) written sz = (written, Inl (TransportError m))"
| "write_chunks mx (WriteFails m # es) written sz = (written, Inl (OSError m))"

text \<open>
  \<^verbatim>\<open>_stream_download\<close>. \<open>sha256_hex\<close> is \<^verbatim>\<open>hashlib.sha256(...).hexdigest()\<close>, a parameter
  of the model. Opening the file in mode \<^verbatim>\<open>"wb"\<close> empties it; nothing removes it when an
  exception leaves the \<^verbatim>\<open>with\<close> blocks. The result is \<^verbatim>\<open>(local_path, sha256, size)\<close>;
  the variable \<^verbatim>\<open>local_path\<close> is \<open>lpath\<close> here (\<open>local_path\<close> is the column of the catalog).
\<close>

definition stream_download ::
  "(nat list \<Rightarrow> string) \<Rightarrow> int \<Rightarrow> filesystem \<Rightarrow> attempt \<Rightarrow> string \<Rightarrow>
   filesystem \<times> (exn + string \<times> string \<times> int)" where
  "stream_download sha256_hex mx fs att lpath =
     (case att of
        ConnectFails m \<Rightarrow> (fs, Inl (TransportError m))
      | Response resp \<Rightarrow>
        (case status_error resp of
           Some m \<Rightarrow> (fs, Inl (HTTPStatusError m))
         | None \<Rightarrow>
           (let ct = content_type resp in
            if contains ct ''text/html'' \<and>
               (endswith (lower lpath) ''.pdf'' \<or> endswith (lower lpath) ''.zip'')
            then (fs, Inl (ValueError (''Expected binary but got HTML (content-type: '' @ ct @ '')'')))
            else
              (case (case content_length resp of
                       NoLength \<Rightarrow> None
                     | BadLength m \<Rightarrow> Some (ValueError m)
                     | Length header n \<Rightarrow>
                         if n > mx
                         then Some (ValueError (''File too large: '' @ header @ '' bytes''))
                         else None) of
                 Some e \<Rightarrow> (fs, Inl e)
               | None \<Rightarrow>
                   if lpath = [] then (fs, Inl (OSError ''No such file or directory''))
                   else
                     (case open_error resp of
                        Some m \<Rightarrow> (fs, Inl (OSError m))
                      | None \<Rightarrow>
                          (case write_chunks mx (body resp) [] 0 of
                             (written, Inl e) \<Rightarrow> (fs(lpath \<mapsto> Bytes written), Inl e)
                           | (written, Inr sz) \<Rightarrow>
                               (fs(lpath \<mapsto> Bytes written),
                                Inr (lpath, sha256_hex written, sz))))))))"

text \<open>
  \<^verbatim>\<open>download_file\<close>. It begins with \<^verbatim>\<open>os.makedirs(dest_dir)\<close>, outside the loop and its
  \<^verbatim>\<open>try\<close>; the argument \<^verbatim>\<open>doc_id\<close> is not used by the code and is left out. Time is not
  part of the model: the calls of \<^verbatim>\<open>self.rate_limit\<close>
  and \<^verbatim>\<open>time.sleep\<close> are recorded as events, with their arguments, next to the requests.
  \<^verbatim>\<open>time.sleep\<close> raises \<^verbatim>\<open>ValueError\<close> for a negative argument. The \<^verbatim>\<open>for\<close> loop over
  \<^verbatim>\<open>range(max_retries)\<close> is \<open>retry_loop\<close>: \<open>remaining\<close> iterations are left, the next has
  the number \<open>attempt\<close>. When the loop ends, \<^verbatim>\<open>raise last_error\<close> raises the stored
  exception, and a \<^verbatim>\<open>TypeError\<close> when there is none (the loop never ran).
\<close>

datatype event = RateLimit string real | Request string | Sleep int

fun retryable :: "exn \<Rightarrow> bool" where
  "retryable (HTTPStatusError m) = True"
| "retryable (TransportError m) = True"
| "retryable (OSError m) = True"
| "retryable e = False"

fun retry_loop ::
  "(nat list \<Rightarrow> string) \<Rightarrow> download_config \<Rightarrow> (nat \<Rightarrow> attempt) \<Rightarrow> string \<Rightarrow> string \<Rightarrow> string \<Rightarrow>
   real \<Rightarrow> nat \<Rightarrow> nat \<Rightarrow> exn option \<Rightarrow> filesystem \<Rightarrow> event list \<Rightarrow>
   filesystem \<times> event list \<times> (exn + string \<times> string \<times> int)" where
  "retry_loop H cfg script u lpath src rate 0 attempt last_error fs tr =
     (fs, tr, Inl (case last_error of
                     None \<Rightarrow> TypeError ''exceptions must derive from BaseException''
                   | Some e \<Rightarrow> e))"
| "retry_loop H cfg script u lpath src rate (Suc remaining) attempt last_error fs tr =
     (let tr1 = tr @ [RateLimit src rate, Request u] in
      case stream_download H (max_file_size cfg) fs (script attempt) lpath of
        (fs', Inr r) \<Rightarrow> (fs', tr1, Inr r)
      | (fs', Inl e) \<Rightarrow>
          if retryable e then
            (let wait = backoff_factor cfg ^ attempt in
             if wait < 0 then (fs', tr1, Inl (ValueError ''sleep length must be non-negative''))
             else retry_loop H cfg script u lpath src rate remaining (Suc attempt) (Some e)
                    fs' (tr1 @ [Sleep wait]))
          else (fs', tr1, Inl e))"

record download_env =
  dest_makedirs_error :: "string option"
  attempts :: "nat \<Rightarrow> attempt"

definition download_file ::
  "(nat list \<Rightarrow> string) \<Rightarrow> download_config \<Rightarrow> download_env \<Rightarrow> filesystem \<Rightarrow> string \<Rightarrow> string \<Rightarrow>
   string \<Rightarrow> string \<Rightarrow> source_config option \<Rightarrow>
   filesystem \<times> event list \<times> (exn + string \<times> string \<times> int)" where
  "download_file H cfg env fs u dest_dir fname src sc =
     (if dest_dir = [] then (fs, [], Inl (OSError ''No such file or directory''))
      else case dest_makedirs_error env of
        Some m \<Rightarrow> (fs, [], Inl (OSError m))
      | None \<Rightarrow>
          (let lpath = path_join dest_dir fname;
               rate = (case sc of Some c \<Rightarrow> rate_limit c | None \<Rightarrow> default_rate_limit cfg) in
           retry_loop H cfg (attempts env) u lpath src rate (nat (max_retries cfg)) 0 None
             fs []))"


section \<open>The default adapter loop (sources/base.py)\<close>

record app_config =
  data_dir :: string
  download :: download_config
  extraction_enabled :: bool

record base_source =
  name :: string
  config :: app_config
  source_config :: "source_config option"
  extractor :: extractor

text \<open>
  \<^verbatim>\<open>discover()\<close> yields pairs \<^verbatim>\<open>(url, meta)\<close>. An item of the loop is such a pair together
  with what the world does while the item is processed: the environment of the download,
  the environment of the extraction, and the readings of \<^verbatim>\<open>CURRENT_TIMESTAMP\<close>.
  \<^verbatim>\<open>meta\<close> is a dictionary, here an association list read with \<open>dict_get\<close>
  (\<^verbatim>\<open>meta.get(key, default)\<close>).
\<close>

record item =
  item_url :: string
  meta :: "(string \<times> string) list"
  net :: download_env
  pdf :: pdf_env
  t_insert :: timestamp
  t_update :: timestamp
  t_extract :: timestamp

definition dict_get :: "(string \<times> string) list \<Rightarrow> string \<Rightarrow> string \<Rightarrow> string" where
  "dict_get m k d = (case map_of m k of None \<Rightarrow> d | Some v \<Rightarrow> v)"

text \<open>\<^verbatim>\<open>_filename_from_url\<close>; \<open>urlpath\<close> is \<^verbatim>\<open>urlparse(url).path\<close>, a parameter.\<close>

definition filename_from_url :: "(string \<Rightarrow> string) \<Rightarrow> string \<Rightarrow> string" where
  "filename_from_url urlpath u =
     (let nm = basename (urlpath u) in if nm \<noteq> [] then nm else ''document.pdf'')"

text \<open>
  The state of a run: the catalog, the disk, the four counters of \<^verbatim>\<open>run\<close>, and the
  records of the effects (the downloader's events, the pages given to OCR).
\<close>

record run_state =
  st_db :: database
  st_fs :: filesystem
  discovered :: int
  downloaded :: int
  skipped :: int
  failed :: int
  events :: "event list"
  ocr_log :: "nat list"

definition run_start :: "database \<Rightarrow> filesystem \<Rightarrow> run_state" where
  "run_start db fs =
     \<lparr>st_db = db, st_fs = fs, discovered = 0, downloaded = 0, skipped = 0, failed = 0,
      events = [], ocr_log = []\<rparr>"

text \<open>
  The body of the \<^verbatim>\<open>for\<close> loop of \<^verbatim>\<open>BaseSource.run\<close>. Every exception of the
  \<^verbatim>\<open>try\<close> block ends in the \<^verbatim>\<open>except\<close> clause, which marks the row \<^verbatim>\<open>failed\<close>.
  \<^verbatim>\<open>if existing:\<close> holds for a path that is neither \<open>None\<close> nor empty.
\<close>

definition run_item ::
  "(nat list \<Rightarrow> string) \<Rightarrow> (string \<Rightarrow> string) \<Rightarrow> base_source \<Rightarrow> item \<Rightarrow> run_state \<Rightarrow> run_state" where
  "run_item H urlpath self it st0 =
     (let st = st0\<lparr>discovered := discovered st0 + 1\<rparr>; u = item_url it in
      if url_exists (st_db st) u then st\<lparr>skipped := skipped st + 1\<rparr>
      else
        (let sid = dict_get (meta it) ''source_id'' [];
             fname = dict_get (meta it) ''filename'' (filename_from_url urlpath u);
             ttl = dict_get (meta it) ''title'' fname;
             (db1, doc_id) = insert_document (st_db st) (t_insert it) u (name self) sid fname ttl
                               (Some (meta it));
             dest_dir = path_join (data_dir (config self)) (name self);
             safe_filename = (if sid \<noteq> [] then sid @ ''__'' @ fname else fname)
         in
         case download_file H (download (config self)) (net it) (st_fs st) u dest_dir
                safe_filename (name self) (source_config self) of
           (fs1, tr, Inl e) \<Rightarrow>
             st\<lparr>st_db := update_download db1 (t_update it) doc_id ''failed'' None None None
                          (Some (str_exn e)),
                st_fs := fs1, events := events st @ tr, failed := failed st + 1\<rparr>
         | (fs1, tr, Inr (lpath, sha, sz)) \<Rightarrow>
             (let existing = sha256_exists db1 sha in
              if existing \<noteq> None \<and> existing \<noteq> Some [] then
                (case os_remove fs1 lpath of
                   Inl e \<Rightarrow>
                     st\<lparr>st_db := update_download db1 (t_update it) doc_id ''failed'' None None
                                  None (Some (str_exn e)),
                        st_fs := fs1, events := events st @ tr, failed := failed st + 1\<rparr>
                 | Inr fs2 \<Rightarrow>
                     st\<lparr>st_db := update_download db1 (t_update it) doc_id ''skipped'' None None
                                  None
                                  (Some (''duplicate of '' @
                                     (case existing of Some p \<Rightarrow> p | None \<Rightarrow> []))),
                        st_fs := fs2, events := events st @ tr, skipped := skipped st + 1\<rparr>)
              else
                (let db2 = update_download db1 (t_update it) doc_id ''downloaded'' (Some lpath)
                             (Some sha) (Some sz) None;
                     st2 = st\<lparr>st_db := db2, st_fs := fs1, events := events st @ tr,
                              downloaded := downloaded st + 1\<rparr>
                 in
                 if extraction_enabled (config self) \<and> endswith (lower lpath) ''.pdf'' then
                   (case extract_text (data_dir (config self)) (name self) (extractor self)
                           (pdf it) (t_extract it) db2 fs1 doc_id lpath of
                      (db3, fs3, calls) \<Rightarrow>
                        st2\<lparr>st_db := db3, st_fs := fs3, ocr_log := ocr_log st2 @ calls\<rparr>)
                 else st2))))"

fun run ::
  "(nat list \<Rightarrow> string) \<Rightarrow> (string \<Rightarrow> string) \<Rightarrow> base_source \<Rightarrow> item list \<Rightarrow> run_state \<Rightarrow> run_state" where
  "run H urlpath self [] st = st"
| "run H urlpath self (it # its) st = run H urlpath self its (run_item H urlpath self it st)"

section \<open>The adapters that override the loop\<close>

text \<open>
  \<^verbatim>\<open>EpsteinGraphSource._fetch_person\<close> ends by registering the person in the catalog.
  \<open>out_dir\<close> is \<^verbatim>\<open>{data_dir}/epsteingraph\<close>; the title and the metadata come from the
  API's answer and are arguments here.
\<close>

definition API_BASE :: string where
  "API_BASE = ''https://api.epsteingraph.com''"

definition register_person ::
  "database \<Rightarrow> timestamp \<Rightarrow> timestamp \<Rightarrow> string \<Rightarrow> string \<Rightarrow> string \<Rightarrow> (string \<times> string) list \<Rightarrow>
   database" where
  "register_person db t_ins t_upd out_dir slug ttl person_meta =
     (let person_dir = path_join (path_join out_dir ''people'') slug;
          api_url = API_BASE @ ''/api/people/'' @ slug in
      if \<not> url_exists db api_url then
        (let (db1, doc_id) = insert_document db t_ins api_url ''epsteingraph'' slug
                               (slug @ ''.json'') ttl (Some person_meta) in
         update_download db1 t_upd doc_id ''downloaded''
           (Some (path_join person_dir ''profile.json'')) None (Some 0) None)
      else db)"

text \<open>
  \<^verbatim>\<open>TorrentSource.run\<close>, one magnet: what \<^verbatim>\<open>subprocess.run\<close> of aria2c did (it exited
  with a return code and a standard error text, it timed out, or something else was
  raised), and, after a return code 0, the content of the file at the expected path when
  there is one.
\<close>

datatype aria2c_outcome = Exited int string | TimeoutExpired | Raised exn

record magnet =
  magnet_url :: string
  magnet_source_id :: string
  magnet_filename :: string
  magnet_title :: string

definition torrent_item ::
  "(nat list \<Rightarrow> string) \<Rightarrow> string \<Rightarrow> database \<Rightarrow> timestamp \<Rightarrow> timestamp \<Rightarrow> magnet \<Rightarrow>
   aria2c_outcome \<Rightarrow> nat list option \<Rightarrow> database" where
  "torrent_item H ddir db t_ins t_upd mg outcome found =
     (if url_exists db (magnet_url mg) then db
      else
        (let (db1, doc_id) = insert_document db t_ins (magnet_url mg) ''torrents''
                               (magnet_source_id mg) (magnet_filename mg) (magnet_title mg) None;
             dest_dir = path_join ddir ''torrents'' in
         case outcome of
           Exited returncode stderr \<Rightarrow>
             if returncode = 0 then
               (case found of
                  Some content \<Rightarrow>
                    update_download db1 t_upd doc_id ''downloaded''
                      (Some (path_join dest_dir (magnet_filename mg))) (Some (H content))
                      (Some (int (length content))) None
                | None \<Rightarrow>
                    update_download db1 t_upd doc_id ''downloaded'' (Some dest_dir) None None None)
             else
               update_download db1 t_upd doc_id ''failed'' None None None
                 (Some (if stderr \<noteq> [] then take 500 stderr
                        else ''exit code '' @ str_int returncode))
         | TimeoutExpired \<Rightarrow>
             update_download db1 t_upd doc_id ''failed'' None None None (Some ''Timeout after 24h'')
         | Raised e \<Rightarrow>
             update_download db1 t_upd doc_id ''failed'' None None None (Some (str_exn e))))"

section \<open>Notions used to state the properties\<close>

subsection \<open>Text extraction\<close>

text \<open>
  The OCR text of page \<open>j\<close> was adopted: \<^verbatim>\<open>_ocr_page\<close> was called on the page and
  returned a text strictly longer than the native one. \<open>adopted_before doc calls i\<close>
  counts the adopted pages among the first \<open>i\<close>.
\<close>

definition adopted :: "page list \<Rightarrow> nat list \<Rightarrow> nat \<Rightarrow> bool" where
  "adopted doc calls j =
     (j \<in> set calls \<and> length (page_text (doc ! j)) < length (ocr_page (doc ! j)))"

definition adopted_before :: "page list \<Rightarrow> nat list \<Rightarrow> nat \<Rightarrow> int" where
  "adopted_before doc calls i = int (length (filter (adopted doc calls) [0..<i]))"

text \<open>The invariant of the loop over the pages, after the pages \<open>doc\<close>.\<close>

definition ocr_inv :: "extractor \<Rightarrow> page list \<Rightarrow> extract_state \<Rightarrow> bool" where
  "ocr_inv ex doc s =
     (case s of (all_text, n_ocr, meth, calls) \<Rightarrow>
        length all_text = length doc \<and>
        (\<forall>j\<in>set calls. j < length doc) \<and>
        (\<forall>i<length doc.
           (i \<in> set calls \<longleftrightarrow>
              int (length (page_text (doc ! i))) < min_chars ex \<and> has_tesseract ex \<and>
              has_pdftoppm ex \<and> adopted_before doc calls i < 50) \<and>
           all_text ! i = page_marker i @
              (if adopted doc calls i then ocr_page (doc ! i) else page_text (doc ! i))) \<and>
        n_ocr = adopted_before doc calls (length doc) \<and>
        n_ocr \<le> 50 \<and>
        meth = (if n_ocr = 0 then ''pymupdf'' else ''pymupdf+ocr''))"

subsection \<open>Example inputs\<close>


definition ocr_extractor :: extractor where
  "ocr_extractor =
     \<lparr>min_chars = 5, ocr_dpi = 300, tesseract_lang = ''eng'', has_tesseract = True,
      has_pdftoppm = True\<rparr>"

definition plain_extractor :: extractor where
  "plain_extractor =
     \<lparr>min_chars = 50, ocr_dpi = 300, tesseract_lang = ''eng'', has_tesseract = False,
      has_pdftoppm = True\<rparr>"

definition scanned_doc :: "page list" where
  "scanned_doc =
     [\<lparr>page_text = [], ocr_page = ''scan''\<rparr>,
      \<lparr>page_text = ''ab'', ocr_page = []\<rparr>,
      \<lparr>page_text = ''hello world'', ocr_page = ''never read''\<rparr>]"

definition blank_doc :: "page list" where
  "blank_doc = [\<lparr>page_text = [], ocr_page = ''unused''\<rparr>]"

definition pdf_of :: "page list \<Rightarrow> pdf_env" where
  "pdf_of doc = \<lparr>makedirs_error = None, opened = Inr doc, write_error = None\<rparr>"

subsection \<open>Downloads\<close>

text \<open>
  The result of an attempt does not depend on the disk (lemma \<open>stream_download_split\<close>
  below); \<open>attempt_result\<close> is that result. \<open>retried\<close> holds of a result after which
  \<^verbatim>\<open>download_file\<close> goes on to another round: an exception of one of the three classes of
  its \<^verbatim>\<open>except\<close> clause. \<open>round_events\<close> are the events of round \<open>j\<close> when it is retried,
  and \<open>attempts_made\<close> counts the requests among the events.
\<close>

definition attempt_result ::
  "(nat list \<Rightarrow> string) \<Rightarrow> int \<Rightarrow> attempt \<Rightarrow> string \<Rightarrow> exn + string \<times> string \<times> int" where
  "attempt_result H mx att lpath = snd (stream_download H mx Map.empty att lpath)"

definition retried :: "exn + string \<times> string \<times> int \<Rightarrow> bool" where
  "retried r = (case r of Inl e \<Rightarrow> retryable e | Inr v \<Rightarrow> False)"

definition round_events :: "string \<Rightarrow> real \<Rightarrow> string \<Rightarrow> int \<Rightarrow> nat \<Rightarrow> event list" where
  "round_events src rate u b j = [RateLimit src rate, Request u, Sleep (b ^ j)]"



definition toy_hash :: "nat list \<Rightarrow> string" where
  "toy_hash bs = str_nat (sum_list bs)"

definition default_download :: download_config where
  "default_download =
     \<lparr>max_retries = 3, backoff_factor = 2, default_rate_limit = 2, max_file_size = 524288000\<rparr>"




subsection \<open>The catalog during a run\<close>



text \<open>
  What SQLite guarantees of the table \<^verbatim>\<open>documents\<close>: the ids are distinct (primary key)
  and none exceeds the table's sequence number (AUTOINCREMENT).
\<close>

definition catalog_wf :: "database \<Rightarrow> bool" where
  "catalog_wf db =
     (distinct (map rowid (documents db)) \<and>
      (\<forall>r\<in>set (documents db). rowid r \<le> documents_seq db))"

text \<open>
  \<open>downloaded_hashes\<close> lists the hashes (the non-NULL ones: NULL equals nothing in SQL) of
  the \<^verbatim>\<open>downloaded\<close> rows, one entry per row. No two such rows share a hash when the
  list has no duplicates. \<open>hashed_have_path\<close>: a \<^verbatim>\<open>downloaded\<close> row with a hash has a
  non-empty path; every adapter writes its hashed rows so.
\<close>

definition downloaded_hashes :: "database \<Rightarrow> string list" where
  "downloaded_hashes db =
     List.map_filter (\<lambda>r. if download_status r = ''downloaded'' then sha256 r else None)
       (documents db)"

definition no_shared_sha256 :: "database \<Rightarrow> bool" where
  "no_shared_sha256 db = distinct (downloaded_hashes db)"

definition hashed_have_path :: "database \<Rightarrow> bool" where
  "hashed_have_path db =
     (\<forall>r\<in>set (documents db). download_status r = ''downloaded'' \<longrightarrow> sha256 r \<noteq> None \<longrightarrow>
        local_path r \<noteq> None \<and> local_path r \<noteq> Some [])"

text \<open>
  Names for what \<^verbatim>\<open>run\<close> computes for an item: the file name, the destination path, the
  row it inserts for a new url, and the download it starts.
\<close>

definition item_source_id :: "item \<Rightarrow> string" where
  "item_source_id it = dict_get (meta it) ''source_id'' []"

definition item_filename :: "(string \<Rightarrow> string) \<Rightarrow> item \<Rightarrow> string" where
  "item_filename urlpath it =
     dict_get (meta it) ''filename'' (filename_from_url urlpath (item_url it))"

definition item_local_path :: "(string \<Rightarrow> string) \<Rightarrow> base_source \<Rightarrow> item \<Rightarrow> string" where
  "item_local_path urlpath self it =
     path_join (path_join (data_dir (config self)) (name self))
       (if item_source_id it \<noteq> [] then item_source_id it @ ''__'' @ item_filename urlpath it
        else item_filename urlpath it)"

definition item_row :: "(string \<Rightarrow> string) \<Rightarrow> base_source \<Rightarrow> item \<Rightarrow> database \<Rightarrow> document" where
  "item_row urlpath self it db =
     new_document (Suc (documents_seq db)) (t_insert it) (item_url it) (name self)
       (item_source_id it) (item_filename urlpath it)
       (dict_get (meta it) ''title'' (item_filename urlpath it)) (meta it)"

definition item_download ::
  "(nat list \<Rightarrow> string) \<Rightarrow> (string \<Rightarrow> string) \<Rightarrow> base_source \<Rightarrow> item \<Rightarrow> filesystem \<Rightarrow>
   filesystem \<times> event list \<times> (exn + string \<times> string \<times> int)" where
  "item_download H urlpath self it fs =
     download_file H (download (config self)) (net it) fs (item_url it)
       (path_join (data_dir (config self)) (name self))
       (if item_source_id it \<noteq> [] then item_source_id it @ ''__'' @ item_filename urlpath it
        else item_filename urlpath it)
       (name self) (source_config self)"

text \<open>
  A response gets as far as the body: the status is good, it is not an HTML page for a
  \<^verbatim>\<open>.pdf\<close> or \<^verbatim>\<open>.zip\<close> destination, the announced length is absent or within the cap, and
  the destination file opens.
\<close>

definition reaches_body :: "int \<Rightarrow> string \<Rightarrow> response \<Rightarrow> bool" where
  "reaches_body mx lpath resp =
     (status_error resp = None \<and>
      \<not> (contains (content_type resp) ''text/html'' \<and>
         (endswith (lower lpath) ''.pdf'' \<or> endswith (lower lpath) ''.zip'')) \<and>
      (case content_length resp of NoLength \<Rightarrow> True | BadLength m \<Rightarrow> False | Length header n \<Rightarrow> n \<le> mx) \<and>
      lpath \<noteq> [] \<and> open_error resp = None)"

subsection \<open>Example runs\<close>

definition doj_source :: base_source where
  "doj_source =
     \<lparr>name = ''doj'',
      config = \<lparr>data_dir = ''data'', download = default_download, extraction_enabled = True\<rparr>,
      source_config = Some \<lparr>enabled = True, rate_limit = 2\<rparr>,
      extractor = plain_extractor\<rparr>"

definition capped_source :: base_source where
  "capped_source =
     doj_source\<lparr>config := \<lparr>data_dir = ''data'',
                             download = default_download\<lparr>max_file_size := 3\<rparr>,
                             extraction_enabled = True\<rparr>\<rparr>"

definition pdf_response :: "chunk_event list \<Rightarrow> response" where
  "pdf_response evs =
     \<lparr>status_error = None, content_type = ''application/pdf'', content_length = NoLength,
      open_error = None, body = evs\<rparr>"

definition pdf_item :: "string \<Rightarrow> string \<Rightarrow> chunk_event list \<Rightarrow> item" where
  "pdf_item u fname evs =
     \<lparr>item_url = u, meta = [(''filename'', fname), (''title'', ''T'')],
      net = \<lparr>dest_makedirs_error = None, attempts = (\<lambda>j. Response (pdf_response evs))\<rparr>,
      pdf = pdf_of blank_doc, t_insert = 1, t_update = 2, t_extract = 3\<rparr>"

definition no_urlpath :: "string \<Rightarrow> string" where
  "no_urlpath u = []"

definition item_a :: item where
  "item_a = pdf_item ''https://x.org/a.pdf'' ''a.pdf'' [Chunk [1, 2]]"

definition item_b :: item where
  "item_b = pdf_item ''https://y.org/b.pdf'' ''b.pdf'' [Chunk [1], Chunk [2]]"

definition after_a :: run_state where
  "after_a = run_item toy_hash no_urlpath doj_source item_a (run_start empty_database Map.empty)"

definition big_item :: item where
  "big_item = pdf_item ''https://x.org/big.pdf'' ''big.pdf'' [Chunk [1, 2], Chunk [3, 4]]"

section \<open>The catalog store: theorems\<close>

lemma insert_document_new:
  "\<not> url_exists db u \<Longrightarrow>
   insert_document db now u src sid fname ttl m =
     (db\<lparr>documents := documents db @
           [new_document (Suc (documents_seq db)) now u src sid fname ttl
              (case m of None \<Rightarrow> [] | Some d \<Rightarrow> d)],
         documents_seq := Suc (documents_seq db),
         last_insert_rowid := Suc (documents_seq db)\<rparr>, Suc (documents_seq db))"
  by (simp add: insert_document_def url_exists_def Let_def)

text \<open>
  With a url that is in the table, no row is written and no row changes; the id returned
  is the connection's last inserted rowid, and the id of the row with that url only when
  the connection has inserted nothing.
\<close>

lemma insert_document_known:
  assumes "find (\<lambda>r. url r = u) (documents db) = Some r"
  shows "documents (fst (insert_document db now u src sid fname ttl m)) = documents db"
    and "text_extractions (fst (insert_document db now u src sid fname ttl m)) = text_extractions db"
    and "snd (insert_document db now u src sid fname ttl m) =
           (if last_insert_rowid db \<noteq> 0 then last_insert_rowid db else rowid r)"
  using assms by (simp_all add: insert_document_def Let_def)

text \<open>
  C4. \<^verbatim>\<open>insert_document\<close> with a url that is in the table writes no row and changes
  no row, but it does not always return the id of the row with that url: after
  \<^verbatim>\<open>a.pdf\<close> (id 1) and \<^verbatim>\<open>b.pdf\<close> (id 2) have been inserted on the connection, inserting
  \<^verbatim>\<open>a.pdf\<close> again returns 2, the id of the row inserted last, while the row with that url
  still has id 1.
\<close>

theorem insert_document_stale_lastrowid:
  "(let (db1, a) = insert_document empty_database 1 ''https://x.org/a.pdf'' ''doj'' [] ''a.pdf'' ''A'' None;
        (db2, b) = insert_document db1 2 ''https://x.org/b.pdf'' ''doj'' [] ''b.pdf'' ''B'' None;
        (db3, c) = insert_document db2 3 ''https://x.org/a.pdf'' ''doj'' [] ''a.pdf'' ''A'' None
    in a = 1 \<and> b = 2 \<and> c = 2 \<and> documents db3 = documents db2 \<and>
       map rowid (filter (\<lambda>r. url r = ''https://x.org/a.pdf'') (documents db3)) = [1])"
  by (simp add: insert_document_def empty_database_def new_document_def Let_def)



section \<open>The text extractor: theorems\<close>

lemma extract_pages_snoc:
  "extract_pages ex (ps @ [p]) n s = extract_page ex p (n + length ps) (extract_pages ex ps n s)"
  by (induction ps arbitrary: n s) simp_all

lemma adopted_before_ext:
  assumes "i \<le> length ds" and "\<And>j. j < length ds \<Longrightarrow> (j \<in> set cs') = (j \<in> set cs)"
  shows "adopted_before (ds @ [p]) cs' i = adopted_before ds cs i"
proof -
  have "filter (adopted (ds @ [p]) cs') [0..<i] = filter (adopted ds cs) [0..<i]"
    using assms by (intro filter_cong) (auto simp: adopted_def nth_append)
  then show ?thesis by (simp add: adopted_before_def)
qed

lemma adopted_before_Suc:
  "adopted_before doc cs (Suc i) = adopted_before doc cs i + (if adopted doc cs i then 1 else 0)"
  by (simp add: adopted_before_def)

lemma ocr_inv_step:
  assumes inv: "ocr_inv ex ds s"
  shows "ocr_inv ex (ds @ [p]) (extract_page ex p (length ds) s)"
proof -
  obtain a k m cs where s: "s = (a, k, m, cs)" by (cases s) auto
  from inv s have len: "length a = length ds"
    and cs: "\<forall>j\<in>set cs. j < length ds"
    and pages: "\<forall>i<length ds.
           (i \<in> set cs \<longleftrightarrow>
              int (length (page_text (ds ! i))) < min_chars ex \<and> has_tesseract ex \<and>
              has_pdftoppm ex \<and> adopted_before ds cs i < 50) \<and>
           a ! i = page_marker i @
              (if adopted ds cs i then ocr_page (ds ! i) else page_text (ds ! i))"
    and k: "k = adopted_before ds cs (length ds)" and k50: "k \<le> 50"
    and m: "m = (if k = 0 then ''pymupdf'' else ''pymupdf+ocr'')"
    by (simp_all add: ocr_inv_def)
  have k0: "0 \<le> k" using k by (simp add: adopted_before_def)
  have fresh: "length ds \<notin> set cs" using cs by auto
  have same: "\<And>xs i. i \<le> length ds \<Longrightarrow> set xs \<subseteq> {length ds} \<Longrightarrow>
      adopted_before (ds @ [p]) (cs @ xs) i = adopted_before ds cs i"
    by (rule adopted_before_ext) auto
  have same_ad: "\<And>xs i. i < length ds \<Longrightarrow> set xs \<subseteq> {length ds} \<Longrightarrow>
      adopted (ds @ [p]) (cs @ xs) i = adopted ds cs i"
    by (auto simp: adopted_def nth_append)
  let ?attempt = "int (length (page_text p)) < min_chars ex \<and> has_tesseract ex \<and>
      has_pdftoppm ex \<and> k < MAX_OCR_PAGES"
  let ?longer = "length (page_text p) < length (ocr_page p)"
  consider (adopt) "?attempt" "?longer" | (keep) "?attempt" "\<not> ?longer" | (skip) "\<not> ?attempt"
    by blast
  then show ?thesis
  proof cases
    case adopt
    then have step: "extract_page ex p (length ds) s =
        (a @ [page_marker (length ds) @ ocr_page p], k + 1, ''pymupdf+ocr'', cs @ [length ds])"
      by (auto simp: extract_page_def s Let_def)
    have ad: "adopted (ds @ [p]) (cs @ [length ds]) (length ds)"
      using adopt by (simp add: adopted_def)
    show ?thesis
      unfolding step ocr_inv_def
      using len cs pages k k50 k0 adopt ad same [of _ "[length ds]"] same_ad [of _ "[length ds]"]
      by (auto simp: nth_append less_Suc_eq adopted_before_Suc MAX_OCR_PAGES_def)
  next
    case keep
    then have step: "extract_page ex p (length ds) s =
        (a @ [page_marker (length ds) @ page_text p], k, m, cs @ [length ds])"
      by (auto simp: extract_page_def s Let_def)
    have ad: "\<not> adopted (ds @ [p]) (cs @ [length ds]) (length ds)"
      using keep by (simp add: adopted_def)
    show ?thesis
      unfolding step ocr_inv_def
      using len cs pages k k50 k0 m keep ad same [of _ "[length ds]"] same_ad [of _ "[length ds]"]
      by (auto simp: nth_append less_Suc_eq adopted_before_Suc MAX_OCR_PAGES_def)
  next
    case skip
    then have step: "extract_page ex p (length ds) s =
        (a @ [page_marker (length ds) @ page_text p], k, m, cs)"
      by (auto simp: extract_page_def s Let_def)
    have ad: "\<not> adopted (ds @ [p]) cs (length ds)"
      using fresh by (simp add: adopted_def)
    show ?thesis
      unfolding step ocr_inv_def
      using len cs pages k k50 k0 m skip ad fresh same [of _ "[]"] same_ad [of _ "[]"]
      by (auto simp: nth_append less_Suc_eq adopted_before_Suc MAX_OCR_PAGES_def)
  qed
qed

lemma ocr_inv_extract_pages:
  "ocr_inv ex doc (extract_pages ex doc 0 ([], 0, ''pymupdf'', []))"
proof (induction doc rule: rev_induct)
  case Nil
  show ?case by (simp add: ocr_inv_def adopted_before_def)
next
  case (snoc p ds)
  then show ?case by (simp add: extract_pages_snoc ocr_inv_step)
qed

lemma extract_pages_all_text:
  assumes "extract_pages ex doc 0 ([], 0, ''pymupdf'', []) = (all_text, n_ocr, meth, calls)"
  shows "all_text = map (\<lambda>i. page_marker i @
            (if adopted doc calls i then ocr_page (doc ! i) else page_text (doc ! i)))
          [0..<length doc]"
proof -
  have "ocr_inv ex doc (all_text, n_ocr, meth, calls)"
    using ocr_inv_extract_pages [of ex doc] assms by simp
  then show ?thesis
    by (intro nth_equalityI) (simp_all add: ocr_inv_def)
qed

lemma extractor_extract_Inr:
  assumes "extractor_extract ex env fs pdf_path out_path = (fs', calls, Inr (pc, cc, n_ocr, meth))"
    and "opened env = Inr doc"
  shows "\<exists>all_text. extract_pages ex doc 0 ([], 0, ''pymupdf'', []) = (all_text, n_ocr, meth, calls) \<and>
     fs' = fs(out_path \<mapsto> Text (join [CHR 0x0A, CHR 0x0A] all_text)) \<and>
     pc = int (length doc) \<and> cc = int (length (join [CHR 0x0A, CHR 0x0A] all_text))"
  using assms
  by (auto simp: extractor_extract_def Let_def split: option.splits sum.splits prod.splits if_splits)

text \<open>
  C6. Let \<^verbatim>\<open>extract\<close> return for a PDF with the pages \<open>doc\<close>. OCR was run on page \<open>i\<close>
  exactly when the native text of the page has fewer than \<^verbatim>\<open>min_chars_per_page\<close>
  characters, both OCR tools are available, and fewer than 50 earlier pages of the
  document had their OCR text adopted. The text written for a page is the OCR text when
  OCR was run and gave a strictly longer text, and the native text otherwise.
  \<^verbatim>\<open>ocr_pages\<close> is the number of pages whose OCR text was adopted, and it is at most 50.
\<close>

theorem extract_ocr_policy:
  assumes "opened env = Inr doc"
    and "extractor_extract ex env fs pdf_path out_path = (fs', calls, Inr (pc, cc, n_ocr, meth))"
  shows "(\<forall>i<length doc.
            (i \<in> set calls \<longleftrightarrow>
               int (length (page_text (doc ! i))) < min_chars ex \<and> has_tesseract ex \<and>
               has_pdftoppm ex \<and> adopted_before doc calls i < 50)) \<and>
         fs' out_path = Some (Text (join [CHR 0x0A, CHR 0x0A]
            (map (\<lambda>i. page_marker i @
                    (if adopted doc calls i then ocr_page (doc ! i) else page_text (doc ! i)))
               [0..<length doc]))) \<and>
         n_ocr = adopted_before doc calls (length doc) \<and>
         n_ocr \<le> 50"
proof -
  from extractor_extract_Inr [OF assms(2) assms(1)]
  obtain all_text
    where loop: "extract_pages ex doc 0 ([], 0, ''pymupdf'', []) = (all_text, n_ocr, meth, calls)"
      and fs': "fs' = fs(out_path \<mapsto> Text (join [CHR 0x0A, CHR 0x0A] all_text))"
    by blast
  have inv: "ocr_inv ex doc (all_text, n_ocr, meth, calls)"
    using ocr_inv_extract_pages [of ex doc] loop by simp
  have texts: "all_text = map (\<lambda>i. page_marker i @
            (if adopted doc calls i then ocr_page (doc ! i) else page_text (doc ! i)))
          [0..<length doc]"
    by (rule extract_pages_all_text [OF loop])
  have "fs' out_path = Some (Text (join [CHR 0x0A, CHR 0x0A] all_text))"
    by (simp add: fs')
  with texts inv show ?thesis
    by (simp add: ocr_inv_def)
qed

text \<open>
  Three pages, at least 5 characters wanted: page 1 has no text and OCR reads "scan"
  (adopted), page 2 has 2 characters and OCR reads nothing (kept), page 3 has 11
  characters (OCR is not run).
\<close>

theorem extract_ocr_policy_witness:
  "opened (pdf_of scanned_doc) = Inr scanned_doc \<and>
   snd (extractor_extract ocr_extractor (pdf_of scanned_doc) Map.empty ''in/a.pdf'' ''out/a.txt'') =
     ([0, 1], Inr (3, 66, 1, ''pymupdf+ocr'')) \<and>
   fst (extractor_extract ocr_extractor (pdf_of scanned_doc) Map.empty ''in/a.pdf'' ''out/a.txt'') ''out/a.txt'' =
     Some (Text (join [CHR 0x0A, CHR 0x0A]
        (map (\<lambda>i. page_marker i @
                (if adopted scanned_doc [0, 1] i then ocr_page (scanned_doc ! i)
                 else page_text (scanned_doc ! i)))
           [0..<length scanned_doc]))) \<and>
   1 = adopted_before scanned_doc [0, 1] (length scanned_doc)"
proof -
  let ?r = "extractor_extract ocr_extractor (pdf_of scanned_doc) Map.empty ''in/a.pdf'' ''out/a.txt''"
  have o: "opened (pdf_of scanned_doc) = Inr scanned_doc"
    by (simp add: pdf_of_def)
  have e: "snd ?r = ([0, 1], Inr (3, 66, 1, ''pymupdf+ocr''))"
    by code_simp
  have h: "?r = (fst ?r, [0, 1], Inr (3, 66, 1, ''pymupdf+ocr''))"
    using e by (metis prod.collapse)
  from extract_ocr_policy [OF o h] o e show ?thesis
    by blast
qed

text \<open>
  The number compared with 50 is the number of adopted OCR texts, not the number of runs
  of OCR: on a document of blank pages on which OCR reads nothing, OCR is run on every
  page, however many there are, and none is counted.
\<close>

lemma extract_pages_ocr_rejected:
  assumes "has_tesseract ex" and "has_pdftoppm ex" and "0 < min_chars ex"
    and "k < MAX_OCR_PAGES"
    and "\<forall>p\<in>set doc. page_text p = [] \<and> ocr_page p = []"
  shows "extract_pages ex doc n (t, k, m, cs) =
           (t @ map page_marker [n..<n + length doc], k, m, cs @ [n..<n + length doc])"
  using assms(5)
proof (induction doc arbitrary: n t cs)
  case Nil
  then show ?case by simp
next
  case (Cons p ps)
  have p: "page_text p = []" "ocr_page p = []"
    using Cons.prems by simp_all
  have step: "extract_page ex p n (t, k, m, cs) = (t @ [page_marker n], k, m, cs @ [n])"
    using assms(1-4) by (simp add: extract_page_def p)
  have upt: "[n..<n + length (p # ps)] = n # [Suc n..<Suc n + length ps]"
    using upt_conv_Cons [of n "n + length (p # ps)"] by simp
  have rest: "\<forall>q\<in>set ps. page_text q = [] \<and> ocr_page q = []"
    using Cons.prems by simp
  have "extract_pages ex (p # ps) n (t, k, m, cs) =
          extract_pages ex ps (Suc n) (t @ [page_marker n], k, m, cs @ [n])"
    by (simp only: extract_pages.simps step)
  also have "\<dots> = ((t @ [page_marker n]) @ map page_marker [Suc n..<Suc n + length ps], k, m,
                     (cs @ [n]) @ [Suc n..<Suc n + length ps])"
    by (rule Cons.IH [OF rest])
  also have "\<dots> = (t @ map page_marker [n..<n + length (p # ps)], k, m,
                     cs @ [n..<n + length (p # ps)])"
    by (simp only: upt list.map append_assoc append_Cons append_Nil)
  finally show ?case .
qed

lemma ocr_runs_not_capped:
  assumes "has_tesseract ex" and "has_pdftoppm ex" and "0 < min_chars ex"
    and "dirname out_path \<noteq> []"
    and "\<forall>p\<in>set doc. page_text p = [] \<and> ocr_page p = []"
  shows "fst (snd (extractor_extract ex (pdf_of doc) fs pdf_path out_path)) = [0..<length doc]"
    and "snd (snd (extractor_extract ex (pdf_of doc) fs pdf_path out_path)) =
           Inr (int (length doc),
                int (length (join [CHR 0x0A, CHR 0x0A] (map page_marker [0..<length doc]))),
                0, ''pymupdf'')"
proof -
  have k: "(0::int) < MAX_OCR_PAGES"
    by (simp add: MAX_OCR_PAGES_def)
  have loop: "extract_pages ex doc 0 ([], 0, ''pymupdf'', []) =
                (map page_marker [0..<length doc], 0, ''pymupdf'', [0..<length doc])"
    using extract_pages_ocr_rejected [OF assms(1-3) k assms(5), of 0 "[]" "''pymupdf''" "[]"]
    by simp
  show "fst (snd (extractor_extract ex (pdf_of doc) fs pdf_path out_path)) = [0..<length doc]"
    using assms(4) by (simp add: extractor_extract_def pdf_of_def loop Let_def)
  show "snd (snd (extractor_extract ex (pdf_of doc) fs pdf_path out_path)) =
           Inr (int (length doc),
                int (length (join [CHR 0x0A, CHR 0x0A] (map page_marker [0..<length doc]))),
                0, ''pymupdf'')"
    using assms(4) by (simp add: extractor_extract_def pdf_of_def loop Let_def)
qed

text \<open>
  C7, as the code has it. The method a successful extraction returns is \<^verbatim>\<open>"pymupdf"\<close>
  when \<^verbatim>\<open>ocr_pages\<close> is 0 and \<^verbatim>\<open>"pymupdf+ocr"\<close> otherwise, and \<^verbatim>\<open>ocr_pages\<close> is not 0
  exactly when the OCR text of at least one page was adopted.
\<close>

theorem extract_method_string:
  assumes "opened env = Inr doc"
    and "extractor_extract ex env fs pdf_path out_path = (fs', calls, Inr (pc, cc, n_ocr, meth))"
  shows "(n_ocr = 0 \<longrightarrow> meth = ''pymupdf'') \<and>
         (n_ocr \<noteq> 0 \<longrightarrow> meth = ''pymupdf+ocr'') \<and>
         (n_ocr \<noteq> 0 \<longleftrightarrow> (\<exists>i<length doc. adopted doc calls i))"
proof -
  from extractor_extract_Inr [OF assms(2) assms(1)]
  obtain all_text
    where loop: "extract_pages ex doc 0 ([], 0, ''pymupdf'', []) = (all_text, n_ocr, meth, calls)"
    by blast
  have inv: "ocr_inv ex doc (all_text, n_ocr, meth, calls)"
    using ocr_inv_extract_pages [of ex doc] loop by simp
  then have meth: "meth = (if n_ocr = 0 then ''pymupdf'' else ''pymupdf+ocr'')"
    and n: "n_ocr = adopted_before doc calls (length doc)"
    by (simp_all add: ocr_inv_def)
  have "(n_ocr \<noteq> 0) = (filter (adopted doc calls) [0..<length doc] \<noteq> [])"
    by (simp add: n adopted_before_def)
  also have "\<dots> = (\<exists>i<length doc. adopted doc calls i)"
    by (auto simp: filter_empty_conv)
  finally show ?thesis using meth by auto
qed

theorem extract_method_string_witness:
  "opened (pdf_of scanned_doc) = Inr scanned_doc \<and>
   snd (extractor_extract ocr_extractor (pdf_of scanned_doc) Map.empty ''in/a.pdf'' ''out/a.txt'') =
     ([0, 1], Inr (3, 66, 1, ''pymupdf+ocr'')) \<and>
   (\<exists>i<length scanned_doc. adopted scanned_doc [0, 1] i)"
proof -
  let ?r = "extractor_extract ocr_extractor (pdf_of scanned_doc) Map.empty ''in/a.pdf'' ''out/a.txt''"
  have o: "opened (pdf_of scanned_doc) = Inr scanned_doc"
    by (simp add: pdf_of_def)
  have e: "snd ?r = ([0, 1], Inr (3, 66, 1, ''pymupdf+ocr''))"
    by code_simp
  have h: "?r = (fst ?r, [0, 1], Inr (3, 66, 1, ''pymupdf+ocr''))"
    using e by (metis prod.collapse)
  from extract_method_string [OF o h] o e show ?thesis
    by simp
qed

text \<open>
  C7 as the specification words it fails: a one-page PDF extracted without OCR has
  \<^verbatim>\<open>ocr_pages = 0\<close> and the method \<^verbatim>\<open>"pymupdf"\<close>, which is not \<^verbatim>\<open>"pdf-native"\<close>.
\<close>

theorem extract_method_not_pdf_native:
  "snd (snd (extractor_extract plain_extractor (pdf_of blank_doc) Map.empty ''in/a.pdf'' ''out/a.txt'')) =
     Inr (1, 15, 0, ''pymupdf'') \<and>
   snd (snd (extractor_extract plain_extractor (pdf_of blank_doc) Map.empty ''in/a.pdf'' ''out/a.txt'')) \<noteq>
     Inr (1, 15, 0, ''pdf-native'')"
  by code_simp

lemma str_nat_not_Nil: "str_nat n \<noteq> []"
  by (subst str_nat.simps) simp

lemma length_page_marker: "15 \<le> length (page_marker i)"
proof -
  have "1 \<le> length (str_nat (i + 1))"
    using str_nat_not_Nil [of "i + 1"] by (cases "str_nat (i + 1)") simp_all
  then show ?thesis by (simp add: page_marker_def)
qed

lemma length_join: "sum_list (map length xs) \<le> length (join sep xs)"
  by (induction sep xs rule: join.induct) simp_all

lemma sum_list_length_ge:
  "(\<forall>x\<in>set xs. c \<le> length x) \<Longrightarrow> c * length xs \<le> sum_list (map length xs)"
  by (induction xs) auto

lemma length_markers: "15 * n \<le> length (join sep (map page_marker [0..<n]))"
proof -
  have "15 * length (map page_marker [0..<n]) \<le> sum_list (map length (map page_marker [0..<n]))"
    by (rule sum_list_length_ge) (simp add: length_page_marker)
  also have "\<dots> \<le> length (join sep (map page_marker [0..<n]))"
    by (rule length_join)
  finally show ?thesis by simp
qed

lemma path_join_not_Nil: "b \<noteq> [] \<Longrightarrow> path_join a b \<noteq> []"
  by (simp add: path_join_def)

lemma path_join_not_Nil_left: "a \<noteq> [] \<Longrightarrow> path_join a b \<noteq> []"
  by (simp add: path_join_def)

lemma path_join_slash: "a \<noteq> [] \<Longrightarrow> CHR ''/'' \<in> set (path_join a b)"
proof -
  assume a: "a \<noteq> []"
  show ?thesis
  proof (cases "b \<noteq> [] \<and> hd b = CHR ''/''")
    case True
    then have "CHR ''/'' \<in> set b" by (metis hd_in_set)
    with True show ?thesis by (simp add: path_join_def)
  next
    case False
    show ?thesis
    proof (cases "last a = CHR ''/''")
      case True
      with a have "CHR ''/'' \<in> set a" by (metis last_in_set)
      with False True show ?thesis by (auto simp: path_join_def)
    next
      case no_slash: False
      with False a show ?thesis by (auto simp: path_join_def)
    qed
  qed
qed

lemma rfind_nonneg: "c \<in> set p \<Longrightarrow> 0 \<le> rfind p c"
proof -
  assume "c \<in> set p"
  then have "dropWhile (\<lambda>x. x \<noteq> c) (rev p) \<noteq> []"
    by (simp add: dropWhile_eq_Nil_conv)
  moreover have "length (takeWhile (\<lambda>x. x \<noteq> c) (rev p)) +
      length (dropWhile (\<lambda>x. x \<noteq> c) (rev p)) = length (rev p)"
    by (metis length_append takeWhile_dropWhile_id)
  ultimately have "length (takeWhile (\<lambda>x. x \<noteq> c) (rev p)) < length p"
    by (cases "dropWhile (\<lambda>x. x \<noteq> c) (rev p)") auto
  then show ?thesis using \<open>c \<in> set p\<close> by (simp add: rfind_def)
qed

lemma dirname_not_Nil:
  assumes "CHR ''/'' \<in> set p"
  shows "dirname p \<noteq> []"
proof -
  let ?head = "take (nat (rfind p (CHR ''/'') + 1)) p"
  have "p \<noteq> []" using assms by auto
  moreover have "0 < nat (rfind p (CHR ''/'') + 1)"
    using rfind_nonneg [OF assms] by simp
  ultimately have head: "?head \<noteq> []" by simp
  show ?thesis
  proof (cases "list_all (\<lambda>c. c = CHR ''/'') ?head")
    case True
    with head show ?thesis by (simp add: dirname_def Let_def)
  next
    case False
    then have "dropWhile (\<lambda>c. c = CHR ''/'') (rev ?head) \<noteq> []"
      by (auto simp: dropWhile_eq_Nil_conv list_all_iff)
    with False head show ?thesis by (simp add: dirname_def Let_def)
  qed
qed

lemma extract_pages_without_ocr:
  assumes "\<not> (has_tesseract ex \<and> has_pdftoppm ex)"
  shows "extract_pages ex doc 0 ([], 0, ''pymupdf'', []) =
     (map (\<lambda>i. page_marker i @ page_text (doc ! i)) [0..<length doc], 0, ''pymupdf'', [])"
proof -
  obtain a k m cs where r: "extract_pages ex doc 0 ([], 0, ''pymupdf'', []) = (a, k, m, cs)"
    by (cases "extract_pages ex doc 0 ([], 0, ''pymupdf'', [])") auto
  have inv: "ocr_inv ex doc (a, k, m, cs)"
    using ocr_inv_extract_pages [of ex doc] r by simp
  have "j \<notin> set cs" for j
    using inv assms by (auto simp: ocr_inv_def)
  then have cs: "cs = []" by (cases cs) auto
  have k: "k = 0" using inv by (simp add: ocr_inv_def cs adopted_before_def adopted_def)
  have m: "m = ''pymupdf''" using inv k by (simp add: ocr_inv_def)
  have "a = map (\<lambda>i. page_marker i @
            (if adopted doc cs i then ocr_page (doc ! i) else page_text (doc ! i)))
          [0..<length doc]"
    by (rule extract_pages_all_text [OF r])
  then have "a = map (\<lambda>i. page_marker i @ page_text (doc ! i)) [0..<length doc]"
    by (simp add: cs adopted_def)
  with r cs k m show ?thesis by simp
qed

text \<open>
  C8, as the code has it. A PDF that opens, whose pages all have an empty native text,
  is extracted without OCR tools and with a writable output: \<^verbatim>\<open>_extract_text\<close> appends
  one \<^verbatim>\<open>completed\<close> row with method \<^verbatim>\<open>"pymupdf"\<close>, \<^verbatim>\<open>ocr_pages = 0\<close> and, as
  \<^verbatim>\<open>char_count\<close>, the length of the written text, which consists of the page markers and
  the blank lines between them: at least 15 characters per page, and 0 only for a PDF
  without pages.
\<close>

theorem extract_text_blank_pages:
  assumes "makedirs_error env = None" and "opened env = Inr doc" and "write_error env = None"
    and "\<forall>p\<in>set doc. page_text p = []"
    and "\<not> (has_tesseract ex \<and> has_pdftoppm ex)"
  shows "(let out = path_join (path_join (path_join ddir ''extracted_text'') nm)
                      (fst (splitext (basename pdf_path)) @ ''.txt'');
              txt = join [CHR 0x0A, CHR 0x0A] (map page_marker [0..<length doc]) in
          extract_text ddir nm ex env now db fs doc_id pdf_path =
            (insert_extraction db now doc_id out ''pymupdf'' (int (length doc))
               (int (length txt)) 0 ''completed'' None,
             fs(out \<mapsto> Text txt), []) \<and>
          15 * int (length doc) \<le> int (length txt) \<and>
          (length txt = 0 \<longleftrightarrow> doc = []))"
proof -
  let ?out = "path_join (path_join (path_join ddir ''extracted_text'') nm)
                (fst (splitext (basename pdf_path)) @ ''.txt'')"
  let ?txt = "join [CHR 0x0A, CHR 0x0A] (map page_marker [0..<length doc])"
  have "path_join (path_join ddir ''extracted_text'') nm \<noteq> []"
    by (intro path_join_not_Nil_left path_join_not_Nil) simp
  then have out: "dirname ?out \<noteq> []"
    by (intro dirname_not_Nil path_join_slash)
  have "map (\<lambda>i. page_marker i @ page_text (doc ! i)) [0..<length doc] =
        map page_marker [0..<length doc]"
    using assms(4) by simp
  then have loop: "extract_pages ex doc 0 ([], 0, ''pymupdf'', []) =
      (map page_marker [0..<length doc], 0, ''pymupdf'', [])"
    using extract_pages_without_ocr [OF assms(5), of doc] by simp
  have ext: "extractor_extract ex env fs pdf_path ?out =
      (fs(?out \<mapsto> Text ?txt), [], Inr (int (length doc), int (length ?txt), 0, ''pymupdf''))"
    using assms(1-3) out by (simp add: extractor_extract_def loop Let_def)
  have run: "extract_text ddir nm ex env now db fs doc_id pdf_path =
      (insert_extraction db now doc_id ?out ''pymupdf'' (int (length doc))
         (int (length ?txt)) 0 ''completed'' None, fs(?out \<mapsto> Text ?txt), [])"
    by (simp add: extract_text_def Let_def ext)
  have ge: "15 * length doc \<le> length ?txt" by (rule length_markers)
  then have ge': "15 * int (length doc) \<le> int (length ?txt)" by linarith
  have zero: "(length ?txt = 0) = (doc = [])"
  proof
    assume "length ?txt = 0"
    with ge show "doc = []" by simp
  next
    assume "doc = []"
    then show "length ?txt = 0" by simp
  qed
  from run ge' zero show ?thesis by (simp add: Let_def)
qed

theorem extract_text_blank_pages_witness:
  "makedirs_error (pdf_of blank_doc) = None \<and> opened (pdf_of blank_doc) = Inr blank_doc \<and>
   write_error (pdf_of blank_doc) = None \<and> list_all (\<lambda>p. page_text p = []) blank_doc \<and>
   \<not> (has_tesseract plain_extractor \<and> has_pdftoppm plain_extractor) \<and>
   extract_text ''data'' ''doj'' plain_extractor (pdf_of blank_doc) 7 empty_database Map.empty 1
       ''data/doj/a.pdf'' =
     (insert_extraction empty_database 7 1 ''data/extracted_text/doj/a.txt'' ''pymupdf'' 1 15 0
        ''completed'' None,
      Map.empty(''data/extracted_text/doj/a.txt'' \<mapsto> Text ''--- Page 1 ---\<newline>''), [])"
proof -
  have a: "makedirs_error (pdf_of blank_doc) = None" "opened (pdf_of blank_doc) = Inr blank_doc"
    "write_error (pdf_of blank_doc) = None"
    by (simp_all add: pdf_of_def)
  have b: "\<forall>p\<in>set blank_doc. page_text p = []" by (simp add: blank_doc_def)
  have c: "\<not> (has_tesseract plain_extractor \<and> has_pdftoppm plain_extractor)"
    by (simp add: plain_extractor_def)
  have out: "path_join (path_join (path_join ''data'' ''extracted_text'') ''doj'')
               (fst (splitext (basename ''data/doj/a.pdf'')) @ ''.txt'') =
             ''data/extracted_text/doj/a.txt''"
    by code_simp
  have len: "length blank_doc = 1" by (simp add: blank_doc_def)
  have marker_text: "join [CHR 0x0A, CHR 0x0A] (map page_marker [0..<1]) = ''--- Page 1 ---\<newline>''"
    by code_simp
  from extract_text_blank_pages [OF a b c, of "''data''" "''doj''" "''data/doj/a.pdf''" 7
      empty_database Map.empty 1]
  have "extract_text ''data'' ''doj'' plain_extractor (pdf_of blank_doc) 7 empty_database Map.empty 1
       ''data/doj/a.pdf'' =
     (insert_extraction empty_database 7 1 ''data/extracted_text/doj/a.txt'' ''pymupdf'' 1 15 0
        ''completed'' None,
      Map.empty(''data/extracted_text/doj/a.txt'' \<mapsto> Text ''--- Page 1 ---\<newline>''), [])"
    unfolding Let_def out len marker_text by simp
  with a b c show ?thesis by (simp add: list_all_iff)
qed

text \<open>
  C8 as the specification words it fails: for a PDF of one empty page the inserted row
  has \<^verbatim>\<open>char_count = 15\<close>, the length of \<^verbatim>\<open>"--- Page 1 ---\n"\<close>, and the method
  \<^verbatim>\<open>"pymupdf"\<close>.
\<close>

theorem extract_text_blank_page_row:
  "text_extractions (fst (extract_text ''data'' ''doj'' plain_extractor (pdf_of blank_doc) 7
       empty_database Map.empty 1 ''data/doj/a.pdf'')) =
     [\<lparr>ext_id = 1, document_id = 1, output_path = ''data/extracted_text/doj/a.txt'',
       ext_method = ''pymupdf'', page_count = 1, char_count = 15, ocr_pages = 0,
       status = ''completed'', ext_error = None, ext_created_at = 7\<rparr>]"
  by code_simp

section \<open>The downloader: theorems\<close>

lemma stream_download_split:
  "stream_download H mx fs att lp =
     (fst (stream_download H mx fs att lp), attempt_result H mx att lp)"
  by (simp add: stream_download_def attempt_result_def Let_def
      split: attempt.splits option.splits length_header.splits prod.splits sum.splits)

lemma rounds_Suc:
  "concat (map (\<lambda>j. f (a + j)) [0..<Suc k]) = f a @ concat (map (\<lambda>j. f (Suc a + j)) [0..<k])"
proof -
  have "[0..<Suc k] = 0 # map Suc [0..<k]"
    by (simp add: upt_conv_Cons map_Suc_upt del: upt_Suc)
  then show ?thesis by (simp add: comp_def del: upt_Suc)
qed

lemma retry_loop_stop:
  assumes "0 \<le> backoff_factor cfg"
    and "k < m"
    and "\<forall>j<k. retried (attempt_result H (max_file_size cfg) (script (a + j)) lp)"
    and "\<not> retried (attempt_result H (max_file_size cfg) (script (a + k)) lp)"
  shows "snd (retry_loop H cfg script u lp src rate m a le fs tr) =
     (tr @ concat (map (\<lambda>j. round_events src rate u (backoff_factor cfg) (a + j)) [0..<k]) @
        [RateLimit src rate, Request u],
      attempt_result H (max_file_size cfg) (script (a + k)) lp)"
  using assms(2-4)
proof (induction m arbitrary: k a le fs tr)
  case 0
  then show ?case by simp
next
  case (Suc m)
  let ?res = "attempt_result H (max_file_size cfg) (script a) lp"
  note sd = stream_download_split [of H "max_file_size cfg" fs "script a" lp]
  show ?case
  proof (cases k)
    case 0
    with Suc.prems have "\<not> retried ?res" by simp
    then show ?thesis
      using 0 by (subst retry_loop.simps, subst sd) (auto simp: retried_def Let_def split: sum.splits)
  next
    case (Suc k')
    with Suc.prems have r: "retried ?res" by (metis add.right_neutral zero_less_Suc)
    then obtain e where e: "?res = Inl e" "retryable e"
      by (auto simp: retried_def split: sum.splits)
    have w: "\<not> backoff_factor cfg < 0"
      using assms(1) by simp
    have k': "k' < m" using Suc Suc.prems by simp
    have earlier: "\<forall>j<k'. retried (attempt_result H (max_file_size cfg) (script (Suc a + j)) lp)"
      using Suc.prems(2) Suc by (metis Suc_less_eq add_Suc_shift)
    have last: "\<not> retried (attempt_result H (max_file_size cfg) (script (Suc a + k')) lp)"
      using Suc.prems(3) Suc by simp
    note IH = Suc.IH [OF k' earlier last]
    show ?thesis
      unfolding Suc rounds_Suc
      by (subst retry_loop.simps, subst sd) (simp add: e w Let_def IH round_events_def)
  qed
qed





section \<open>The adapter loop: theorems\<close>

subsection \<open>What an item does to the catalog\<close>

lemma find_append:
  "find P (xs @ ys) = (case find P xs of None \<Rightarrow> find P ys | Some x \<Rightarrow> Some x)"
  by (induction xs) simp_all

lemma documents_update_download:
  "documents (update_download db now d st lp sh fs er) =
     map (\<lambda>r. if rowid r = d
               then r\<lparr>download_status := st, local_path := lp, sha256 := sh, file_size := fs,
                      error := er, updated_at := now\<rparr>
               else r) (documents db)"
  by (simp add: update_download_def)

lemma documents_seq_update_download [simp]:
  "documents_seq (update_download db now d st lp sh fs er) = documents_seq db"
  by (simp add: update_download_def)

lemma documents_extract_text [simp]:
  "documents (fst (extract_text ddir nm ex env now db fs d p)) = documents db"
  "documents_seq (fst (extract_text ddir nm ex env now db fs d p)) = documents_seq db"
  by (simp_all add: extract_text_def insert_extraction_def Let_def
      split: prod.splits sum.splits)

lemma stream_download_Inr:
  assumes "stream_download H mx fs att lp = (fs', Inr (p, sha, sz))"
  shows "p = lp \<and> lp \<noteq> [] \<and> fs' lp \<noteq> None"
  using assms
  by (auto simp: stream_download_def Let_def
      split: attempt.splits option.splits length_header.splits prod.splits sum.splits if_splits)

lemma retry_loop_Inr:
  "retry_loop H cfg script u lp src rate m a le fs tr = (fs', tr', Inr (p, sha, sz)) \<Longrightarrow>
   p = lp \<and> lp \<noteq> [] \<and> fs' lp \<noteq> None"
proof (induction m arbitrary: a le fs tr)
  case 0
  then show ?case by simp
next
  case (Suc m)
  obtain fs1 r where sd: "stream_download H (max_file_size cfg) fs (script a) lp = (fs1, r)"
    by (cases "stream_download H (max_file_size cfg) fs (script a) lp") auto
  show ?case
  proof (cases r)
    case (Inr v)
    obtain p' sha' sz' where v: "v = (p', sha', sz')" by (cases v) auto
    from Suc.prems sd Inr v have "fs' = fs1" "p' = p" "sha' = sha" "sz' = sz"
      by (simp_all add: Let_def)
    with stream_download_Inr [of H "max_file_size cfg" fs "script a" lp fs1 p' sha' sz'] sd Inr v
    show ?thesis by simp
  next
    case (Inl e)
    with Suc.prems sd have
      "retryable e \<and> \<not> backoff_factor cfg ^ a < 0 \<and>
       retry_loop H cfg script u lp src rate m (Suc a) (Some e) fs1
         (tr @ [RateLimit src rate, Request u, Sleep (backoff_factor cfg ^ a)]) =
         (fs', tr', Inr (p, sha, sz))"
      by (simp add: Let_def split: if_splits)
    then show ?thesis using Suc.IH by blast
  qed
qed

lemma item_download_Inr:
  assumes "item_download H urlpath self it fs = (fs', tr, Inr (p, sha, sz))"
  shows "p = item_local_path urlpath self it \<and> p \<noteq> [] \<and> fs' p \<noteq> None"
  using assms retry_loop_Inr
  by (fastforce simp: item_download_def item_local_path_def download_file_def Let_def
      split: option.splits if_splits)

text \<open>The body of the loop for a url that is in the catalog, and for one that is not.\<close>

lemma run_item_known:
  "url_exists (st_db st) (item_url it) \<Longrightarrow>
   run_item H urlpath self it st = st\<lparr>discovered := discovered st + 1, skipped := skipped st + 1\<rparr>"
  by (simp add: run_item_def Let_def)

lemma run_item_new:
  assumes "\<not> url_exists (st_db st) (item_url it)"
  shows "run_item H urlpath self it st =
     (let st1 = st\<lparr>discovered := discovered st + 1\<rparr>;
          doc_id = Suc (documents_seq (st_db st));
          db1 = (st_db st)\<lparr>documents := documents (st_db st) @ [item_row urlpath self it (st_db st)],
                  documents_seq := doc_id, last_insert_rowid := doc_id\<rparr>
      in
      case item_download H urlpath self it (st_fs st) of
        (fs1, tr, Inl e) \<Rightarrow>
          st1\<lparr>st_db := update_download db1 (t_update it) doc_id ''failed'' None None None
                        (Some (str_exn e)),
              st_fs := fs1, events := events st @ tr, failed := failed st + 1\<rparr>
      | (fs1, tr, Inr (lp, sha, sz)) \<Rightarrow>
          (let existing = sha256_exists db1 sha in
           if existing \<noteq> None \<and> existing \<noteq> Some [] then
             (case os_remove fs1 lp of
                Inl e \<Rightarrow>
                  st1\<lparr>st_db := update_download db1 (t_update it) doc_id ''failed'' None None None
                                (Some (str_exn e)),
                      st_fs := fs1, events := events st @ tr, failed := failed st + 1\<rparr>
              | Inr fs2 \<Rightarrow>
                  st1\<lparr>st_db := update_download db1 (t_update it) doc_id ''skipped'' None None None
                                (Some (''duplicate of '' @
                                   (case existing of Some p \<Rightarrow> p | None \<Rightarrow> []))),
                      st_fs := fs2, events := events st @ tr, skipped := skipped st + 1\<rparr>)
           else
             (let db2 = update_download db1 (t_update it) doc_id ''downloaded'' (Some lp)
                          (Some sha) (Some sz) None;
                  st2 = st1\<lparr>st_db := db2, st_fs := fs1, events := events st @ tr,
                            downloaded := downloaded st + 1\<rparr>
              in
              if extraction_enabled (config self) \<and> endswith (lower lp) ''.pdf'' then
                (case extract_text (data_dir (config self)) (name self) (extractor self)
                        (pdf it) (t_extract it) db2 fs1 doc_id lp of
                   (db3, fs3, calls) \<Rightarrow>
                     st2\<lparr>st_db := db3, st_fs := fs3, ocr_log := ocr_log st @ calls\<rparr>)
              else st2)))"
  using assms
  unfolding run_item_def item_download_def item_row_def item_source_id_def item_filename_def
    Let_def
  by (simp add: insert_document_new split del: if_split
      cong: if_cong prod.case_cong sum.case_cong)

lemma sha256_exists_item_row:
  "sha256_exists
     (db\<lparr>documents := documents db @ [item_row urlpath self it db'], documents_seq := i,
         last_insert_rowid := j\<rparr>) h = sha256_exists db h"
  by (simp add: sha256_exists_def find_append item_row_def new_document_def split: option.splits)

text \<open>
  For a new url the loop appends the item's row and ends with one \<^verbatim>\<open>update_download\<close> of
  the new id (the extraction that may follow does not touch the table). When the status
  written is \<^verbatim>\<open>downloaded\<close>, path, hash and size are given, the path is not empty, and no
  path was found for the hash among the earlier rows.
\<close>

lemma run_item_new_documents:
  assumes "\<not> url_exists (st_db st) (item_url it)"
  shows "\<exists>stt lpo sho fso er.
     documents (st_db (run_item H urlpath self it st)) =
       map (\<lambda>r. if rowid r = Suc (documents_seq (st_db st))
                 then r\<lparr>download_status := stt, local_path := lpo, sha256 := sho,
                        file_size := fso, error := er, updated_at := t_update it\<rparr>
                 else r)
         (documents (st_db st) @ [item_row urlpath self it (st_db st)]) \<and>
     documents_seq (st_db (run_item H urlpath self it st)) = Suc (documents_seq (st_db st)) \<and>
     (stt = ''downloaded'' \<or> stt = ''skipped'' \<or> stt = ''failed'') \<and>
     (stt = ''downloaded'' \<longrightarrow>
        (\<exists>lp sha sz. lpo = Some lp \<and> lp \<noteq> [] \<and> sho = Some sha \<and> fso = Some sz \<and>
           (sha256_exists (st_db st) sha = None \<or> sha256_exists (st_db st) sha = Some [])))"
proof -
  obtain fs1 tr r where dl: "item_download H urlpath self it (st_fs st) = (fs1, tr, r)"
    by (cases "item_download H urlpath self it (st_fs st)") auto
  note unfold = run_item_new [OF assms, of H urlpath self, unfolded Let_def dl prod.case]
  show ?thesis
  proof (cases r)
    case (Inl e)
    show ?thesis
      apply (rule exI [of _ "''failed''"], rule exI [of _ None], rule exI [of _ None],
          rule exI [of _ None], rule exI [of _ "Some (str_exn e)"])
      unfolding unfold Inl
      by (simp add: documents_update_download)
  next
    case (Inr v)
    obtain lp sha sz where v: "v = (lp, sha, sz)" by (cases v) auto
    have "item_download H urlpath self it (st_fs st) = (fs1, tr, Inr (lp, sha, sz))"
      using dl Inr v by simp
    from item_download_Inr [OF this]
    have lp: "lp \<noteq> []" and on_disk: "fs1 lp \<noteq> None" by blast+
    let ?existing = "sha256_exists (st_db st) sha"
    show ?thesis
    proof (cases "?existing \<noteq> None \<and> ?existing \<noteq> Some []")
      case True
      from on_disk obtain fs2 where rm: "os_remove fs1 lp = Inr fs2"
        by (auto simp: os_remove_def)
      show ?thesis
        apply (rule exI [of _ "''skipped''"], rule exI [of _ None], rule exI [of _ None],
            rule exI [of _ None],
            rule exI [of _ "Some (''duplicate of '' @ (case ?existing of Some p \<Rightarrow> p | None \<Rightarrow> []))"])
        unfolding unfold Inr v
        using True by (simp add: documents_update_download sha256_exists_item_row rm)
    next
      case False
      show ?thesis
        apply (rule exI [of _ "''downloaded''"], rule exI [of _ "Some lp"],
            rule exI [of _ "Some sha"], rule exI [of _ "Some sz"], rule exI [of _ None])
        unfolding unfold Inr v
        using False lp
        by (auto simp: documents_update_download sha256_exists_item_row case_prod_beta)
    qed
  qed
qed

lemma run_item_known_db:
  "url_exists (st_db st) (item_url it) \<Longrightarrow> st_db (run_item H urlpath self it st) = st_db st"
  by (simp add: run_item_known)

subsection \<open>Downloaded rows are complete\<close>











subsection \<open>Content deduplication\<close>

lemma map_filter_append:
  "List.map_filter f (xs @ ys) = List.map_filter f xs @ List.map_filter f ys"
  by (simp add: List.map_filter_def)

lemma set_map_filter: "set (List.map_filter f xs) = {y. \<exists>x\<in>set xs. f x = Some y}"
  by (induction xs) (auto simp: List.map_filter_simps split: option.splits)

lemma downloaded_hashes_mem:
  "h \<in> set (downloaded_hashes db) \<longleftrightarrow>
     (\<exists>r\<in>set (documents db). download_status r = ''downloaded'' \<and> sha256 r = Some h)"
  by (auto simp: downloaded_hashes_def set_map_filter split: if_splits)

lemma no_path_no_hash:
  assumes "hashed_have_path db"
    and "sha256_exists db h = None \<or> sha256_exists db h = Some []"
  shows "h \<notin> set (downloaded_hashes db)"
proof
  assume "h \<in> set (downloaded_hashes db)"
  then obtain r where "r \<in> set (documents db)" "download_status r = ''downloaded''"
    "sha256 r = Some h"
    by (auto simp: downloaded_hashes_mem)
  then have "find (\<lambda>r. sha256 r = Some h \<and> download_status r = ''downloaded'') (documents db) \<noteq> None"
    by (auto simp: find_None_iff)
  then obtain r' where f: "find (\<lambda>r. sha256 r = Some h \<and> download_status r = ''downloaded'')
      (documents db) = Some r'"
    by auto
  then have r': "r' \<in> set (documents db)" "sha256 r' = Some h" "download_status r' = ''downloaded''"
    by (auto simp: find_Some_iff)
  with assms(1) have "local_path r' \<noteq> None \<and> local_path r' \<noteq> Some []"
    by (auto simp: hashed_have_path_def)
  moreover have "sha256_exists db h = local_path r'"
    by (simp add: sha256_exists_def f)
  ultimately show False using assms(2) by auto
qed

lemma hash_has_path:
  assumes "hashed_have_path db" and "h \<in> set (downloaded_hashes db)"
  shows "\<exists>p. sha256_exists db h = Some p \<and> p \<noteq> []"
proof (rule ccontr)
  assume "\<not> (\<exists>p. sha256_exists db h = Some p \<and> p \<noteq> [])"
  then have "sha256_exists db h = None \<or> sha256_exists db h = Some []"
    by (cases "sha256_exists db h") auto
  from no_path_no_hash [OF assms(1) this] assms(2) show False by simp
qed

lemma run_item_new_documents_wf:
  assumes "catalog_wf (st_db st)" and "\<not> url_exists (st_db st) (item_url it)"
  shows "\<exists>stt lpo sho fso er.
     documents (st_db (run_item H urlpath self it st)) =
       documents (st_db st) @
         [(item_row urlpath self it (st_db st))
            \<lparr>download_status := stt, local_path := lpo, sha256 := sho, file_size := fso,
             error := er, updated_at := t_update it\<rparr>] \<and>
     documents_seq (st_db (run_item H urlpath self it st)) = Suc (documents_seq (st_db st)) \<and>
     (stt = ''downloaded'' \<longrightarrow>
        (\<exists>lp sha sz. lpo = Some lp \<and> lp \<noteq> [] \<and> sho = Some sha \<and> fso = Some sz \<and>
           (sha256_exists (st_db st) sha = None \<or> sha256_exists (st_db st) sha = Some [])))"
proof -
  from run_item_new_documents [OF assms(2), of H urlpath self]
  obtain stt lpo sho fso er where
    docs: "documents (st_db (run_item H urlpath self it st)) =
       map (\<lambda>r. if rowid r = Suc (documents_seq (st_db st))
                 then r\<lparr>download_status := stt, local_path := lpo, sha256 := sho,
                        file_size := fso, error := er, updated_at := t_update it\<rparr>
                 else r)
         (documents (st_db st) @ [item_row urlpath self it (st_db st)])"
    and seq: "documents_seq (st_db (run_item H urlpath self it st)) = Suc (documents_seq (st_db st))"
    and dl: "stt = ''downloaded'' \<longrightarrow> (\<exists>lp sha sz. lpo = Some lp \<and> lp \<noteq> [] \<and> sho = Some sha \<and>
           fso = Some sz \<and>
           (sha256_exists (st_db st) sha = None \<or> sha256_exists (st_db st) sha = Some []))"
    by blast
  have old: "map (\<lambda>r. if rowid r = Suc (documents_seq (st_db st))
                 then r\<lparr>download_status := stt, local_path := lpo, sha256 := sho,
                        file_size := fso, error := er, updated_at := t_update it\<rparr>
                 else r) (documents (st_db st)) = documents (st_db st)"
    using assms(1) by (intro map_idI) (auto simp: catalog_wf_def)
  have new: "rowid (item_row urlpath self it (st_db st)) = Suc (documents_seq (st_db st))"
    by (simp add: item_row_def new_document_def)
  have "documents (st_db (run_item H urlpath self it st)) =
       documents (st_db st) @
         [(item_row urlpath self it (st_db st))
            \<lparr>download_status := stt, local_path := lpo, sha256 := sho, file_size := fso,
             error := er, updated_at := t_update it\<rparr>]"
    using docs old new by simp
  with seq dl show ?thesis by blast
qed

text \<open>The three facts about the catalog that the loop keeps together.\<close>

lemma run_item_dedup_inv:
  assumes "catalog_wf (st_db st)" and "hashed_have_path (st_db st)"
    and "no_shared_sha256 (st_db st)"
  shows "catalog_wf (st_db (run_item H urlpath self it st)) \<and>
         hashed_have_path (st_db (run_item H urlpath self it st)) \<and>
         no_shared_sha256 (st_db (run_item H urlpath self it st))"
proof (cases "url_exists (st_db st) (item_url it)")
  case True
  with assms show ?thesis by (simp add: run_item_known_db)
next
  case False
  let ?db' = "st_db (run_item H urlpath self it st)"
  from run_item_new_documents_wf [OF assms(1) False, of H urlpath self]
  obtain stt lpo sho fso er where
    docs: "documents ?db' = documents (st_db st) @
         [(item_row urlpath self it (st_db st))
            \<lparr>download_status := stt, local_path := lpo, sha256 := sho, file_size := fso,
             error := er, updated_at := t_update it\<rparr>]"
    and seq: "documents_seq ?db' = Suc (documents_seq (st_db st))"
    and dl: "stt = ''downloaded'' \<longrightarrow> (\<exists>lp sha sz. lpo = Some lp \<and> lp \<noteq> [] \<and> sho = Some sha \<and>
           fso = Some sz \<and>
           (sha256_exists (st_db st) sha = None \<or> sha256_exists (st_db st) sha = Some []))"
    by blast
  have wf: "catalog_wf ?db'"
    using assms(1) by (auto simp: catalog_wf_def docs seq item_row_def new_document_def)
  have hp: "hashed_have_path ?db'"
    using assms(2) dl by (auto simp: hashed_have_path_def docs)
  have hashes: "downloaded_hashes ?db' = downloaded_hashes (st_db st) @
      (if stt = ''downloaded'' then (case sho of None \<Rightarrow> [] | Some h \<Rightarrow> [h]) else [])"
    by (simp add: downloaded_hashes_def docs map_filter_append)
      (simp add: List.map_filter_def split: option.splits)
  have ns: "no_shared_sha256 ?db'"
  proof (cases "stt = ''downloaded''")
    case True
    with dl obtain sha where sho: "sho = Some sha"
      and none: "sha256_exists (st_db st) sha = None \<or> sha256_exists (st_db st) sha = Some []"
      by blast
    from no_path_no_hash [OF assms(2) none] assms(3) show ?thesis
      by (simp add: no_shared_sha256_def hashes True sho)
  next
    case False
    with assms(3) show ?thesis by (simp add: no_shared_sha256_def hashes)
  qed
  from wf hp ns show ?thesis by simp
qed

lemma run_dedup_inv:
  assumes "catalog_wf (st_db st)" and "hashed_have_path (st_db st)"
    and "no_shared_sha256 (st_db st)"
  shows "catalog_wf (st_db (run H urlpath self items st)) \<and>
         hashed_have_path (st_db (run H urlpath self items st)) \<and>
         no_shared_sha256 (st_db (run H urlpath self items st))"
  using assms
proof (induction items arbitrary: st)
  case Nil
  then show ?case by simp
next
  case (Cons it items)
  from run_item_dedup_inv [OF Cons.prems, of H urlpath self it]
  show ?case using Cons.IH by simp
qed

lemma run_item_duplicate:
  assumes "catalog_wf (st_db st)" and "\<not> url_exists (st_db st) (item_url it)"
    and "item_download H urlpath self it (st_fs st) = (fs1, tr, Inr (lp, sha, sz))"
    and "sha256_exists (st_db st) sha = Some p" and "p \<noteq> []"
  shows "st_fs (run_item H urlpath self it st) = fs1(lp := None) \<and>
     documents (st_db (run_item H urlpath self it st)) =
       documents (st_db st) @
         [(item_row urlpath self it (st_db st))
            \<lparr>download_status := ''skipped'', error := Some (''duplicate of '' @ p),
             updated_at := t_update it\<rparr>] \<and>
     skipped (run_item H urlpath self it st) = skipped st + 1 \<and>
     downloaded (run_item H urlpath self it st) = downloaded st \<and>
     failed (run_item H urlpath self it st) = failed st"
proof -
  from item_download_Inr [OF assms(3)] have "fs1 lp \<noteq> None" by blast
  then have rm: "os_remove fs1 lp = Inr (fs1(lp := None))"
    by (auto simp: os_remove_def)
  have old: "map (\<lambda>r. if rowid r = Suc (documents_seq (st_db st)) then f r else r)
               (documents (st_db st)) = documents (st_db st)" for f
    using assms(1) by (intro map_idI) (auto simp: catalog_wf_def)
  have step: "run_item H urlpath self it st =
      st\<lparr>discovered := discovered st + 1,
         st_db := update_download
           ((st_db st)\<lparr>documents := documents (st_db st) @ [item_row urlpath self it (st_db st)],
               documents_seq := Suc (documents_seq (st_db st)),
               last_insert_rowid := Suc (documents_seq (st_db st))\<rparr>)
           (t_update it) (Suc (documents_seq (st_db st))) ''skipped'' None None None
           (Some (''duplicate of '' @ p)),
         st_fs := fs1(lp := None), events := events st @ tr, skipped := skipped st + 1\<rparr>"
    unfolding run_item_new [OF assms(2), of H urlpath self, unfolded Let_def assms(3) prod.case]
    using assms(4,5) by (simp add: sha256_exists_item_row rm)
  show ?thesis
    unfolding step
    by (simp add: documents_update_download old item_row_def new_document_def)
qed

text \<open>
  The two facts the theorem on deduplication starts from hold of the empty catalog and
  are kept by the other two adapters as well, so they hold of every catalog the
  program has written. (The torrents adapter does not look for the hash of what it
  fetched, so it can add a \<^verbatim>\<open>downloaded\<close> row whose hash is in the catalog already.)
\<close>

lemma empty_database_facts:
  "catalog_wf empty_database \<and> hashed_have_path empty_database \<and>
   no_shared_sha256 empty_database"
  by (simp add: catalog_wf_def hashed_have_path_def no_shared_sha256_def downloaded_hashes_def
      empty_database_def List.map_filter_simps)

lemma catalog_wf_update_download:
  "catalog_wf db \<Longrightarrow> catalog_wf (update_download db now d st lp sh fs er)"
proof -
  assume wf: "catalog_wf db"
  have ids: "map rowid (documents (update_download db now d st lp sh fs er)) =
      map rowid (documents db)"
    by (simp add: documents_update_download comp_def if_distrib cong: if_cong)
  have "\<forall>r\<in>set (documents (update_download db now d st lp sh fs er)).
      rowid r \<le> documents_seq db"
    using wf by (auto simp: documents_update_download catalog_wf_def)
  with wf ids show ?thesis by (simp add: catalog_wf_def)
qed

lemma catalog_wf_insert_document:
  "catalog_wf db \<Longrightarrow> catalog_wf (fst (insert_document db now u src sid fname ttl m))"
  by (auto simp: catalog_wf_def insert_document_def new_document_def Let_def le_Suc_eq
      split: option.splits)

lemma register_person_facts:
  assumes "catalog_wf db" and "hashed_have_path db"
  shows "catalog_wf (register_person db t_ins t_upd out_dir slug ttl pm) \<and>
         hashed_have_path (register_person db t_ins t_upd out_dir slug ttl pm)"
proof
  show "catalog_wf (register_person db t_ins t_upd out_dir slug ttl pm)"
    using assms(1)
      catalog_wf_insert_document [OF assms(1), of t_ins "API_BASE @ ''/api/people/'' @ slug"
        "''epsteingraph''" slug "slug @ ''.json''" ttl "Some pm"]
    by (simp add: register_person_def Let_def case_prod_beta catalog_wf_update_download)
  show "hashed_have_path (register_person db t_ins t_upd out_dir slug ttl pm)"
    using assms(2)
    by (auto simp: register_person_def Let_def hashed_have_path_def insert_document_new
        documents_update_download new_document_def)
qed

lemma torrent_item_facts:
  assumes "catalog_wf db" and "hashed_have_path db"
  shows "catalog_wf (torrent_item H ddir db t_ins t_upd mg outcome found) \<and>
         hashed_have_path (torrent_item H ddir db t_ins t_upd mg outcome found)"
proof
  show "catalog_wf (torrent_item H ddir db t_ins t_upd mg outcome found)"
    using assms(1)
      catalog_wf_insert_document [OF assms(1), of t_ins "magnet_url mg" "''torrents''"
        "magnet_source_id mg" "magnet_filename mg" "magnet_title mg" None]
    by (simp add: torrent_item_def Let_def case_prod_beta catalog_wf_update_download
        split: aria2c_outcome.splits option.splits)
  have path: "path_join (path_join ddir ''torrents'') (magnet_filename mg) \<noteq> []"
    by (intro path_join_not_Nil_left path_join_not_Nil) simp
  show "hashed_have_path (torrent_item H ddir db t_ins t_upd mg outcome found)"
    using assms(2) path
    by (auto simp: torrent_item_def Let_def hashed_have_path_def insert_document_new
        documents_update_download new_document_def
        split: aria2c_outcome.splits option.splits)
qed

text \<open>
  C2. Take a catalog as SQLite keeps it, in which every \<^verbatim>\<open>downloaded\<close> row with a hash
  has a non-empty path and no two \<^verbatim>\<open>downloaded\<close> rows share a hash. After a run of the
  default loop over any items, with any behaviour of the network and the disk, no two
  \<^verbatim>\<open>downloaded\<close> rows share a hash (and the other two facts hold again). For a hash
  that an earlier \<^verbatim>\<open>downloaded\<close> row has, \<^verbatim>\<open>sha256_exists\<close> finds a non-empty path.
  And when, for an item with a new url, the download succeeds and \<^verbatim>\<open>sha256_exists\<close>
  finds the path \<open>p\<close> of an earlier \<^verbatim>\<open>downloaded\<close> row with the hash, the file just
  written is removed, the item's row is \<^verbatim>\<open>skipped\<close> with the error
  \<^verbatim>\<open>duplicate of p\<close>, and \<^verbatim>\<open>skipped\<close> is counted, not \<^verbatim>\<open>downloaded\<close>.
\<close>

theorem run_content_dedup:
  assumes "catalog_wf (st_db st)" and "hashed_have_path (st_db st)"
    and "no_shared_sha256 (st_db st)"
  shows "no_shared_sha256 (st_db (run H urlpath self items st)) \<and>
     catalog_wf (st_db (run H urlpath self items st)) \<and>
     hashed_have_path (st_db (run H urlpath self items st)) \<and>
     (sha \<in> set (downloaded_hashes (st_db st)) \<longrightarrow>
        (\<exists>q. sha256_exists (st_db st) sha = Some q \<and> q \<noteq> [])) \<and>
     (\<not> url_exists (st_db st) (item_url it) \<and>
      item_download H urlpath self it (st_fs st) = (fs1, tr, Inr (lp, sha, sz)) \<and>
      sha256_exists (st_db st) sha = Some p \<and> p \<noteq> [] \<longrightarrow>
        st_fs (run_item H urlpath self it st) = fs1(lp := None) \<and>
        documents (st_db (run_item H urlpath self it st)) =
          documents (st_db st) @
            [(item_row urlpath self it (st_db st))
               \<lparr>download_status := ''skipped'', error := Some (''duplicate of '' @ p),
                updated_at := t_update it\<rparr>] \<and>
        skipped (run_item H urlpath self it st) = skipped st + 1 \<and>
        downloaded (run_item H urlpath self it st) = downloaded st)"
  using run_dedup_inv [OF assms, of H urlpath self items]
    run_item_duplicate [OF assms(1), of it H urlpath self fs1 tr lp sha sz p]
    hash_has_path [OF assms(2), of sha]
  by blast

text \<open>
  Two urls serve the same two bytes. After the first item the catalog has one
  \<^verbatim>\<open>downloaded\<close> row; the second item's file is written, found to be a duplicate of
  \<^verbatim>\<open>data/doj/a.pdf\<close>, and removed.
\<close>

theorem run_content_dedup_witness:
  "catalog_wf (st_db after_a) \<and> hashed_have_path (st_db after_a) \<and>
   no_shared_sha256 (st_db after_a) \<and>
   map download_status (documents (st_db after_a)) = [''downloaded''] \<and>
   \<not> url_exists (st_db after_a) (item_url item_b) \<and>
   snd (snd (item_download toy_hash no_urlpath doj_source item_b (st_fs after_a))) =
     Inr (''data/doj/b.pdf'', ''3'', 2) \<and>
   sha256_exists (st_db after_a) ''3'' = Some ''data/doj/a.pdf'' \<and>
   no_shared_sha256 (st_db (run toy_hash no_urlpath doj_source [item_b] after_a)) \<and>
   st_fs (run_item toy_hash no_urlpath doj_source item_b after_a) ''data/doj/b.pdf'' = None \<and>
   map download_status (documents (st_db (run_item toy_hash no_urlpath doj_source item_b after_a))) =
     [''downloaded'', ''skipped''] \<and>
   map error (documents (st_db (run_item toy_hash no_urlpath doj_source item_b after_a))) =
     [None, Some ''duplicate of data/doj/a.pdf'']"
proof -
  let ?dl = "item_download toy_hash no_urlpath doj_source item_b (st_fs after_a)"
  have inv: "catalog_wf (st_db after_a)" "hashed_have_path (st_db after_a)"
    "no_shared_sha256 (st_db after_a)"
    by code_simp+
  have rows: "map download_status (documents (st_db after_a)) = [''downloaded'']"
    "map error (documents (st_db after_a)) = [None]"
    by code_simp+
  have new: "\<not> url_exists (st_db after_a) (item_url item_b)"
    by code_simp
  have res: "snd (snd ?dl) = Inr (''data/doj/b.pdf'', ''3'', 2)"
    by code_simp
  then have dl: "?dl = (fst ?dl, fst (snd ?dl), Inr (''data/doj/b.pdf'', ''3'', 2))"
    by (metis prod.collapse)
  have dup: "sha256_exists (st_db after_a) ''3'' = Some ''data/doj/a.pdf''"
    by code_simp
  from run_content_dedup [OF inv, where H = toy_hash and urlpath = no_urlpath
      and self = doj_source and items = "[item_b]" and it = item_b and ?fs1.0 = "fst ?dl"
      and tr = "fst (snd ?dl)" and lp = "''data/doj/b.pdf''" and sha = "''3''" and sz = 2
      and p = "''data/doj/a.pdf''"]
    new dl dup
  have "no_shared_sha256 (st_db (run toy_hash no_urlpath doj_source [item_b] after_a))"
    and "st_fs (run_item toy_hash no_urlpath doj_source item_b after_a) =
      (fst ?dl)(''data/doj/b.pdf'' := None)"
    and "documents (st_db (run_item toy_hash no_urlpath doj_source item_b after_a)) =
      documents (st_db after_a) @
        [(item_row no_urlpath doj_source item_b (st_db after_a))
           \<lparr>download_status := ''skipped'', error := Some (''duplicate of '' @ ''data/doj/a.pdf''),
            updated_at := t_update item_b\<rparr>]"
    by simp_all
  with inv rows new res dup show ?thesis by simp
qed

subsection \<open>A download over the size cap\<close>

lemma write_chunks_exceeds:
  assumes "s + int (length (concat pre)) \<le> mx"
    and "mx < s + int (length (concat pre)) + int (length c)"
  shows "write_chunks mx (map Chunk pre @ Chunk c # rest) w s =
     (w @ concat pre @ c,
      Inl (ValueError (''File exceeded max size during download: '' @
             str_int (s + int (length (concat pre)) + int (length c)) @ '' bytes'')))"
  using assms
proof (induction pre arbitrary: w s)
  case Nil
  then show ?case by (simp add: Let_def)
next
  case (Cons x xs)
  have "\<not> mx < s + int (length x)" using Cons.prems(1) by simp
  moreover have "s + int (length x) + int (length (concat xs)) \<le> mx"
    using Cons.prems(1) by simp
  moreover have "mx < s + int (length x) + int (length (concat xs)) + int (length c)"
    using Cons.prems(2) by simp
  ultimately show ?case
    using Cons.IH [of "s + int (length x)" "w @ x"]
    by (simp add: Let_def add.assoc)
qed

lemma stream_download_exceeds:
  assumes "reaches_body mx lp resp"
    and "body resp = map Chunk pre @ Chunk c # rest"
    and "int (length (concat pre)) \<le> mx"
    and "mx < int (length (concat pre)) + int (length c)"
  shows "stream_download H mx fs (Response resp) lp =
     (fs(lp \<mapsto> Bytes (concat pre @ c)),
      Inl (ValueError (''File exceeded max size during download: '' @
             str_int (int (length (concat pre)) + int (length c)) @ '' bytes'')))"
proof -
  have w: "write_chunks mx (body resp) [] 0 =
     (concat pre @ c,
      Inl (ValueError (''File exceeded max size during download: '' @
             str_int (int (length (concat pre)) + int (length c)) @ '' bytes'')))"
    using write_chunks_exceeds [of 0 pre mx c rest "[]"] assms(2-4) by simp
  show ?thesis
    using assms(1)
    by (auto simp: stream_download_def reaches_body_def Let_def w split: length_header.splits)
qed

lemma retry_loop_stop_fs:
  assumes "0 \<le> backoff_factor cfg"
    and "k < m"
    and "\<forall>j<k. retried (attempt_result H (max_file_size cfg) (script (a + j)) lp)"
    and "\<not> retried (attempt_result H (max_file_size cfg) (script (a + k)) lp)"
  shows "\<exists>fs0. fst (retry_loop H cfg script u lp src rate m a le fs tr) =
     fst (stream_download H (max_file_size cfg) fs0 (script (a + k)) lp)"
  using assms(2-4)
proof (induction m arbitrary: k a le fs tr)
  case 0
  then show ?case by simp
next
  case (Suc m)
  let ?res = "attempt_result H (max_file_size cfg) (script a) lp"
  note sd = stream_download_split [of H "max_file_size cfg" fs "script a" lp]
  show ?case
  proof (cases k)
    case 0
    with Suc.prems have "\<not> retried ?res" by simp
    then have "fst (retry_loop H cfg script u lp src rate (Suc m) a le fs tr) =
        fst (stream_download H (max_file_size cfg) fs (script a) lp)"
      by (subst retry_loop.simps, subst sd) (auto simp: retried_def Let_def split: sum.splits)
    with 0 show ?thesis by auto
  next
    case (Suc k')
    with Suc.prems have r: "retried ?res" by (metis add.right_neutral zero_less_Suc)
    then obtain e where e: "?res = Inl e" "retryable e"
      by (auto simp: retried_def split: sum.splits)
    have w: "\<not> backoff_factor cfg < 0"
      using assms(1) by simp
    have k': "k' < m" using Suc Suc.prems by simp
    have earlier: "\<forall>j<k'. retried (attempt_result H (max_file_size cfg) (script (Suc a + j)) lp)"
      using Suc.prems(2) Suc by (metis Suc_less_eq add_Suc_shift)
    have last: "\<not> retried (attempt_result H (max_file_size cfg) (script (Suc a + k')) lp)"
      using Suc.prems(3) Suc by simp
    from Suc.IH [OF k' earlier last]
    obtain fs0 where
      "fst (retry_loop H cfg script u lp src rate m (Suc a) (Some e)
              (fst (stream_download H (max_file_size cfg) fs (script a) lp))
              (tr @ [RateLimit src rate, Request u, Sleep (backoff_factor cfg ^ a)])) =
       fst (stream_download H (max_file_size cfg) fs0 (script (Suc a + k')) lp)"
      by blast
    then have "fst (retry_loop H cfg script u lp src rate (Suc m) a le fs tr) =
       fst (stream_download H (max_file_size cfg) fs0 (script (a + k)) lp)"
      unfolding Suc
      by (subst retry_loop.simps, subst sd) (simp add: e w Let_def)
    then show ?thesis by blast
  qed
qed

lemma item_download_exceeds:
  assumes "name self \<noteq> []"
    and "dest_makedirs_error (net it) = None"
    and "0 \<le> backoff_factor (download (config self))"
    and "k < nat (max_retries (download (config self)))"
    and "\<forall>j<k. retried (attempt_result H (max_file_size (download (config self)))
                 (attempts (net it) j) (item_local_path urlpath self it))"
    and "attempts (net it) k = Response resp"
    and "reaches_body (max_file_size (download (config self))) (item_local_path urlpath self it) resp"
    and "body resp = map Chunk pre @ Chunk c # rest"
    and "int (length (concat pre)) \<le> max_file_size (download (config self))"
    and "max_file_size (download (config self)) < int (length (concat pre)) + int (length c)"
  shows "\<exists>fs1 tr. item_download H urlpath self it fs =
       (fs1, tr, Inl (ValueError (''File exceeded max size during download: '' @
             str_int (int (length (concat pre)) + int (length c)) @ '' bytes''))) \<and>
     fs1 (item_local_path urlpath self it) = Some (Bytes (concat pre @ c))"
proof -
  let ?cfg = "download (config self)"
  let ?lp = "item_local_path urlpath self it"
  let ?e = "ValueError (''File exceeded max size during download: '' @
             str_int (int (length (concat pre)) + int (length c)) @ '' bytes'')"
  let ?rate = "case source_config self of Some c \<Rightarrow> rate_limit c
               | None \<Rightarrow> default_rate_limit ?cfg"
  have sd: "stream_download H (max_file_size ?cfg) fs0 (attempts (net it) k) ?lp =
      (fs0(?lp \<mapsto> Bytes (concat pre @ c)), Inl ?e)" for fs0
    unfolding assms(6) by (rule stream_download_exceeds [OF assms(7-10)])
  then have res: "attempt_result H (max_file_size ?cfg) (attempts (net it) k) ?lp = Inl ?e"
    by (simp add: attempt_result_def)
  then have final: "\<not> retried (attempt_result H (max_file_size ?cfg) (attempts (net it) (0 + k)) ?lp)"
    by (simp add: retried_def)
  have earlier: "\<forall>j<k. retried (attempt_result H (max_file_size ?cfg) (attempts (net it) (0 + j)) ?lp)"
    using assms(5) by simp
  have df: "item_download H urlpath self it fs =
      retry_loop H ?cfg (attempts (net it)) (item_url it) ?lp (name self) ?rate
        (nat (max_retries ?cfg)) 0 None fs []"
    using assms(1,2)
    by (simp add: item_download_def download_file_def item_local_path_def Let_def
        path_join_not_Nil)
  from retry_loop_stop [OF assms(3,4) earlier final, of "item_url it" "name self" ?rate None fs "[]"]
  have r: "snd (snd (item_download H urlpath self it fs)) = Inl ?e"
    by (simp add: df res)
  from retry_loop_stop_fs [OF assms(3,4) earlier final, of "item_url it" "name self" ?rate None fs "[]"]
  obtain fs0 where "fst (item_download H urlpath self it fs) = fs0(?lp \<mapsto> Bytes (concat pre @ c))"
    by (auto simp: df sd)
  then have f: "fst (item_download H urlpath self it fs) ?lp = Some (Bytes (concat pre @ c))"
    by simp
  from r f show ?thesis
    by (metis prod.collapse)
qed

text \<open>
  C3, as the code has it. An item with a new url is downloaded by an adapter with a
  name, into a directory that can be created; the attempts before
  attempt \<open>k\<close> fail with retried errors, and attempt \<open>k\<close> gets as far as the body, whose
  chunks \<open>pre\<close> stay within \<^verbatim>\<open>max_file_size\<close> and whose next chunk \<open>c\<close> takes the byte
  counter over it. Then the item's row is \<^verbatim>\<open>failed\<close>, with the message of the
  \<^verbatim>\<open>ValueError\<close>, no row becomes \<^verbatim>\<open>downloaded\<close>, and the destination file stays on the
  disk, holding every chunk up to and including \<open>c\<close>.
\<close>

theorem run_item_size_exceeded:
  assumes "catalog_wf (st_db st)" and "\<not> url_exists (st_db st) (item_url it)"
    and "name self \<noteq> []" and "dest_makedirs_error (net it) = None"
    and "0 \<le> backoff_factor (download (config self))"
    and "k < nat (max_retries (download (config self)))"
    and "\<forall>j<k. retried (attempt_result H (max_file_size (download (config self)))
                 (attempts (net it) j) (item_local_path urlpath self it))"
    and "attempts (net it) k = Response resp"
    and "reaches_body (max_file_size (download (config self))) (item_local_path urlpath self it) resp"
    and "body resp = map Chunk pre @ Chunk c # rest"
    and "int (length (concat pre)) \<le> max_file_size (download (config self))"
    and "max_file_size (download (config self)) < int (length (concat pre)) + int (length c)"
  shows "st_fs (run_item H urlpath self it st) (item_local_path urlpath self it) =
           Some (Bytes (concat pre @ c)) \<and>
         documents (st_db (run_item H urlpath self it st)) =
           documents (st_db st) @
             [(item_row urlpath self it (st_db st))
                \<lparr>download_status := ''failed'',
                 error := Some (''File exceeded max size during download: '' @
                            str_int (int (length (concat pre)) + int (length c)) @ '' bytes''),
                 updated_at := t_update it\<rparr>] \<and>
         failed (run_item H urlpath self it st) = failed st + 1 \<and>
         downloaded (run_item H urlpath self it st) = downloaded st"
proof -
  from item_download_exceeds [OF assms(3-12), of "st_fs st"]
  obtain fs1 tr where
    dl: "item_download H urlpath self it (st_fs st) =
       (fs1, tr, Inl (ValueError (''File exceeded max size during download: '' @
             str_int (int (length (concat pre)) + int (length c)) @ '' bytes'')))"
    and kept: "fs1 (item_local_path urlpath self it) = Some (Bytes (concat pre @ c))"
    by blast
  have old: "map (\<lambda>r. if rowid r = Suc (documents_seq (st_db st)) then f r else r)
               (documents (st_db st)) = documents (st_db st)" for f
    using assms(1) by (intro map_idI) (auto simp: catalog_wf_def)
  show ?thesis
    unfolding run_item_new [OF assms(2), of H urlpath self, unfolded Let_def dl prod.case]
    using kept
    by (simp add: documents_update_download old item_row_def new_document_def)
qed

text \<open>
  With a cap of 3 bytes and a body of two chunks of 2 bytes, the second chunk takes the
  counter to 4.
\<close>

theorem run_item_size_exceeded_witness:
  "catalog_wf (st_db (run_start empty_database Map.empty)) \<and>
   \<not> url_exists (st_db (run_start empty_database Map.empty)) (item_url big_item) \<and>
   reaches_body (max_file_size (download (config capped_source)))
     (item_local_path no_urlpath capped_source big_item)
     (pdf_response [Chunk [1, 2], Chunk [3, 4]]) \<and>
   item_local_path no_urlpath capped_source big_item = ''data/doj/big.pdf'' \<and>
   st_fs (run_item toy_hash no_urlpath capped_source big_item
            (run_start empty_database Map.empty)) ''data/doj/big.pdf'' =
     Some (Bytes [1, 2, 3, 4]) \<and>
   failed (run_item toy_hash no_urlpath capped_source big_item
            (run_start empty_database Map.empty)) = 1"
proof -
  let ?st = "run_start empty_database Map.empty"
  have a: "catalog_wf (st_db ?st)" "\<not> url_exists (st_db ?st) (item_url big_item)"
    by code_simp+
  have b: "name capped_source \<noteq> []" "dest_makedirs_error (net big_item) = None"
    "0 \<le> backoff_factor (download (config capped_source))"
    "0 < nat (max_retries (download (config capped_source)))"
    "attempts (net big_item) 0 = Response (pdf_response [Chunk [1, 2], Chunk [3, 4]])"
    by code_simp+
  have none: "\<forall>j<0::nat. retried (attempt_result toy_hash
      (max_file_size (download (config capped_source))) (attempts (net big_item) j)
      (item_local_path no_urlpath capped_source big_item))"
    by simp
  have c: "reaches_body (max_file_size (download (config capped_source)))
     (item_local_path no_urlpath capped_source big_item)
     (pdf_response [Chunk [1, 2], Chunk [3, 4]])"
    by code_simp
  have d: "body (pdf_response [Chunk [1, 2], Chunk [3, 4]]) = map Chunk [[1, 2]] @ Chunk [3, 4] # []"
    by (simp add: pdf_response_def)
  have e: "int (length (concat [[1, 2 :: nat]])) \<le> max_file_size (download (config capped_source))"
    "max_file_size (download (config capped_source)) <
       int (length (concat [[1, 2 :: nat]])) + int (length [3, 4 :: nat])"
    by code_simp+
  have p: "item_local_path no_urlpath capped_source big_item = ''data/doj/big.pdf''"
    by code_simp
  have f0: "failed ?st = 0" by (simp add: run_start_def)
  from run_item_size_exceeded [OF a b(1-4) none b(5) c d e] p f0
  have "st_fs (run_item toy_hash no_urlpath capped_source big_item ?st) ''data/doj/big.pdf'' =
     Some (Bytes [1, 2, 3, 4])"
    and "failed (run_item toy_hash no_urlpath capped_source big_item ?st) = 1"
    by simp_all
  with a c p show ?thesis by simp
qed

text \<open>
  C3 as the specification words it fails: after that download the row is \<^verbatim>\<open>failed\<close>, but
  the four bytes written are still on the disk at the destination path.
\<close>

theorem oversized_file_left_on_disk:
  "st_fs (run_item toy_hash no_urlpath capped_source big_item
            (run_start empty_database Map.empty)) ''data/doj/big.pdf'' =
     Some (Bytes [1, 2, 3, 4]) \<and>
   map download_status (documents (st_db (run_item toy_hash no_urlpath capped_source big_item
            (run_start empty_database Map.empty)))) = [''failed''] \<and>
   map error (documents (st_db (run_item toy_hash no_urlpath capped_source big_item
            (run_start empty_database Map.empty)))) =
     [Some ''File exceeded max size during download: 4 bytes'']"
  by code_simp

end
